theory Spec2Isabelle
  imports Main "HOL-Library.Word" "HOL-Library.Monad_Syntax"
begin

section \<open>Tic-tac-toe board (tic\_tac\_toe\_game.hpp)\<close>

text \<open>
  The board is a vector of nine \<open>int\<close> cells, an \<open>int\<close> win state and a \<open>size_t\<close> move
  counter (64 bits here, so \<open>m_move_count++\<close> wraps at \<open>2 ^ 64\<close>).  Reading or writing
  \<open>m_board[k]\<close> outside the vector is undefined behaviour in C++; the model returns
  \<open>None\<close> there, so that "every access stays inside the vector" is the statement that
  the operation returns \<open>Some\<close>.
\<close>

definition X_VAL :: int where "X_VAL = 1"
definition O_VAL :: int where "O_VAL = - 1"
definition EMPTY_VAL :: int where "EMPTY_VAL = 0"

record tic_tac_toe_board =
  m_board :: "int list"
  m_state :: int
  m_move_count :: "64 word"

definition new_board :: tic_tac_toe_board where
  "new_board = \<lparr>m_board = replicate 9 0, m_state = 0, m_move_count = 0\<rparr>"

definition int_ok :: "int \<Rightarrow> bool" where
  "int_ok k \<longleftrightarrow> - (2 ^ 31) \<le> k \<and> k < 2 ^ 31"

definition cell_index :: "tic_tac_toe_board \<Rightarrow> int \<Rightarrow> int \<Rightarrow> nat option" where
  "cell_index b i j =
     (let k = i + 3 * j
      in if int_ok (3 * j) \<and> int_ok k \<and> 0 \<le> k \<and> nat k < length (m_board b)
         then Some (nat k) else None)"

definition get_value :: "tic_tac_toe_board \<Rightarrow> int \<Rightarrow> int \<Rightarrow> int option" where
  "get_value b i j = map_option (\<lambda>k. m_board b ! k) (cell_index b i j)"

definition set_value :: "tic_tac_toe_board \<Rightarrow> int \<Rightarrow> int \<Rightarrow> int \<Rightarrow> tic_tac_toe_board option" where
  "set_value b i j s = map_option (\<lambda>k. b\<lparr>m_board := (m_board b)[k := s]\<rparr>) (cell_index b i j)"

text \<open>
  One of the four \<open>for (i = 0; i < 3; i++)\<close> scans of \<open>move\<close>: \<open>Some False\<close> is the
  \<open>break\<close>, \<open>Some True\<close> is reaching \<open>i == 2\<close> (where the source sets \<open>m_state\<close> and
  returns).
\<close>

fun check_line :: "tic_tac_toe_board \<Rightarrow> (int \<Rightarrow> int \<times> int) \<Rightarrow> int \<Rightarrow> int list \<Rightarrow> bool option" where
  "check_line b cell s [] = Some False"
| "check_line b cell s (i # rest) =
     (case get_value b (fst (cell i)) (snd (cell i)) of
        None \<Rightarrow> None
      | Some v \<Rightarrow> if v \<noteq> s then Some False
                  else if i = 2 then Some True
                  else check_line b cell s rest)"

definition move :: "tic_tac_toe_board \<Rightarrow> int \<Rightarrow> int \<Rightarrow> int \<Rightarrow> tic_tac_toe_board option" where
  "move b x y s =
     (case set_value b x y s of
        None \<Rightarrow> None
      | Some b1 \<Rightarrow>
          let b2 = b1\<lparr>m_move_count := m_move_count b1 + 1\<rparr> in
          (case check_line b2 (\<lambda>i. (x, i)) s [0, 1, 2] of
             None \<Rightarrow> None
           | Some True \<Rightarrow> Some (b2\<lparr>m_state := s\<rparr>)
           | Some False \<Rightarrow>
          (case check_line b2 (\<lambda>i. (i, y)) s [0, 1, 2] of
             None \<Rightarrow> None
           | Some True \<Rightarrow> Some (b2\<lparr>m_state := s\<rparr>)
           | Some False \<Rightarrow>
          (case (if x = y then check_line b2 (\<lambda>i. (i, i)) s [0, 1, 2] else Some False) of
             None \<Rightarrow> None
           | Some True \<Rightarrow> Some (b2\<lparr>m_state := s\<rparr>)
           | Some False \<Rightarrow>
          (case (if x + y = 2 then check_line b2 (\<lambda>i. (i, 2 - i)) s [0, 1, 2] else Some False) of
             None \<Rightarrow> None
           | Some True \<Rightarrow> Some (b2\<lparr>m_state := s\<rparr>)
           | Some False \<Rightarrow> Some b2)))))"

text \<open>
  \<open>add_x\<close> and \<open>add_o\<close> take \<open>unsigned int\<close> coordinates and pass them to the \<open>int\<close>
  parameters of \<open>get_value\<close> and \<open>move\<close> (\<open>sint\<close> is that conversion).
\<close>

definition add_x :: "tic_tac_toe_board \<Rightarrow> 32 word \<Rightarrow> 32 word \<Rightarrow> (bool \<times> tic_tac_toe_board) option" where
  "add_x b i j =
     (if i > 2 \<or> j > 2 then Some (False, b)
      else case get_value b (sint i) (sint j) of
             None \<Rightarrow> None
           | Some v \<Rightarrow>
               if v \<noteq> EMPTY_VAL then Some (False, b)
               else map_option (\<lambda>b'. (True, b')) (move b (sint i) (sint j) X_VAL))"

definition add_o :: "tic_tac_toe_board \<Rightarrow> 32 word \<Rightarrow> 32 word \<Rightarrow> (bool \<times> tic_tac_toe_board) option" where
  "add_o b i j =
     (if i > 2 \<or> j > 2 then Some (False, b)
      else case get_value b (sint i) (sint j) of
             None \<Rightarrow> None
           | Some v \<Rightarrow>
               if v \<noteq> EMPTY_VAL then Some (False, b)
               else map_option (\<lambda>b'. (True, b')) (move b (sint i) (sint j) O_VAL))"

definition board_is_done :: "tic_tac_toe_board \<Rightarrow> bool" where
  "board_is_done b \<longleftrightarrow> m_move_count b = 9 \<or> m_state b \<noteq> 0"

text \<open>A sequence of calls on one board: \<open>True\<close> selects \<open>add_x\<close>, \<open>False\<close> selects \<open>add_o\<close>.\<close>

fun add_all :: "(bool \<times> 32 word \<times> 32 word) list \<Rightarrow> tic_tac_toe_board \<Rightarrow> tic_tac_toe_board option" where
  "add_all [] b = Some b"
| "add_all ((is_x, i, j) # rest) b =
     (case (if is_x then add_x b i j else add_o b i j) of
        None \<Rightarrow> None
      | Some (_, b') \<Rightarrow> add_all rest b')"

definition board_inv :: "tic_tac_toe_board \<Rightarrow> bool" where
  "board_inv b \<longleftrightarrow> length (m_board b) = 9
     \<and> unat (m_move_count b) = length (filter (\<lambda>v. v \<noteq> 0) (m_board b))"

section \<open>JSON values and tokens (the external libraries' data)\<close>

text \<open>
  The JSON library is external; a JSON document is modelled as a tree.  Objects are
  association lists read with \<open>map_of\<close>; numbers are integers (the code under study reads
  booleans and unsigned integers only).
\<close>

datatype json =
    JNull
  | JBool bool
  | JNum int
  | JStr string
  | JArr "json list"
  | JObj "(string \<times> json) list"

datatype json_exception = Json_out_of_range | Json_type_error

text \<open>\<open>j.at(key)\<close>: throws \<open>out_of_range\<close> for a missing key, \<open>type_error\<close> on a non-object.\<close>

fun json_at :: "json \<Rightarrow> string \<Rightarrow> json_exception + json" where
  "json_at (JObj kvs) key =
     (case map_of kvs key of None \<Rightarrow> Inl Json_out_of_range | Some v \<Rightarrow> Inr v)"
| "json_at _ key = Inl Json_type_error"

text \<open>\<open>j.get<bool>()\<close>: throws \<open>type_error\<close> unless the value is a boolean.\<close>

fun json_get_bool :: "json \<Rightarrow> json_exception + bool" where
  "json_get_bool (JBool b) = Inr b"
| "json_get_bool _ = Inl Json_type_error"

text \<open>
  A JSON web token, decoded: header claims, payload claims and the signature.  The
  signature algorithm itself belongs to the JWT library and is a parameter \<open>hs256\<close> of the
  model, from the secret, the header and the payload to the signature.
\<close>

record jwt =
  jwt_header :: "(string \<times> json) list"
  jwt_payload :: "(string \<times> json) list"
  jwt_signature :: string

type_synonym signer = "string \<Rightarrow> (string \<times> json) list \<Rightarrow> (string \<times> json) list \<Rightarrow> string"

section \<open>The tic-tac-toe game module and matchmaker (tic\_tac\_toe\_game.hpp)\<close>

type_synonym player_id = nat
type_synonym session_id = "64 word"

record player_data =
  pd_has_connected :: bool
  pd_is_connected :: bool

record tic_tac_toe_game =
  m_player_list :: "player_id list"
  m_data_map :: "(player_id \<times> player_data) list"
  m_valid :: bool
  m_started :: bool
  m_game_over :: bool
  m_xmove :: bool
  m_game_state :: int
  m_xtime :: int
  m_otime :: int
  m_elapsed_time :: int
  m_move_list :: "json list"
  m_game_board :: tic_tac_toe_board

text \<open>
  The constructor: \<open>is_matched\<close> starts false, \<open>msg.at("matched").get<bool>()\<close> may throw a
  \<open>json::exception\<close> (caught: \<open>m_valid = false\<close>), and a false \<open>is_matched\<close> clears
  \<open>m_valid\<close> as well.
\<close>

definition read_matched :: "json \<Rightarrow> json_exception + bool" where
  "read_matched msg = (case json_at msg ''matched'' of Inl e \<Rightarrow> Inl e | Inr v \<Rightarrow> json_get_bool v)"

definition make_tic_tac_toe_game :: "json \<Rightarrow> tic_tac_toe_game" where
  "make_tic_tac_toe_game msg =
     (let g0 = \<lparr>m_player_list = [], m_data_map = [], m_valid = True, m_started = False,
                m_game_over = False, m_xmove = True, m_game_state = 0, m_xtime = 100000,
                m_otime = 100000, m_elapsed_time = 0, m_move_list = [],
                m_game_board = new_board\<rparr>;
          (is_matched, g1) = (case read_matched msg of
                                Inl e \<Rightarrow> (False, g0\<lparr>m_valid := False\<rparr>)
                              | Inr b \<Rightarrow> (b, g0))
      in if \<not> is_matched then g1\<lparr>m_valid := False\<rparr> else g1)"

definition is_valid :: "tic_tac_toe_game \<Rightarrow> bool" where
  "is_valid g = m_valid g"

definition is_done :: "tic_tac_toe_game \<Rightarrow> bool" where
  "is_done g \<longleftrightarrow> board_is_done (m_game_board g) \<or> m_game_over g"

record tic_tac_toe_matchmaker =
  m_sid_count :: session_id

type_synonym matched_game = "session_id list \<times> session_id \<times> json"

definition new_matchmaker :: tic_tac_toe_matchmaker where
  "new_matchmaker = \<lparr>m_sid_count = 0\<rparr>"

text \<open>
  The session map is an \<open>unordered_map\<close>; its iteration order is not specified, so the
  model takes the sessions as the list of keys in the order the loop visits them.
\<close>

definition can_match :: "session_id list \<Rightarrow> bool" where
  "can_match session_map \<longleftrightarrow> length session_map > 1"

text \<open>
  The loop of \<open>match\<close>: \<open>sl\<close> collects sessions; at two, a group is emitted with
  \<open>std::move(sl)\<close> (which leaves \<open>sl\<close> empty), the id \<open>m_sid_count++\<close> and the JSON
  \<open>{"matched": true}\<close>.
\<close>

fun match_loop :: "session_id list \<Rightarrow> session_id list \<Rightarrow> tic_tac_toe_matchmaker
    \<Rightarrow> matched_game list \<Rightarrow> matched_game list \<times> tic_tac_toe_matchmaker" where
  "match_loop [] sl mm game_list = (game_list, mm)"
| "match_loop (s # rest) sl mm game_list =
     (let sl1 = sl @ [s]
      in if length sl1 > 1
         then match_loop rest [] (mm\<lparr>m_sid_count := m_sid_count mm + 1\<rparr>)
                (game_list @ [(sl1, m_sid_count mm, JObj [(''matched'', JBool True)])])
         else match_loop rest sl1 mm game_list)"

definition match :: "matched_game list \<Rightarrow> (session_id \<times> string) list \<Rightarrow> session_id list
    \<Rightarrow> tic_tac_toe_matchmaker
    \<Rightarrow> (matched_game list \<times> (session_id \<times> string) list) \<times> tic_tac_toe_matchmaker" where
  "match game_list messages session_map mm =
     (let (gl, mm') = match_loop session_map [] mm game_list in ((gl, messages), mm'))"

definition get_cancel_data :: json where
  "get_cancel_data = JObj [(''matched'', JBool False)]"

section \<open>Signing join tokens (matchmaking\_server.cpp)\<close>

text \<open>
  \<open>sign_game\<close> builds a token with issuer \<open>tic_tac_toe_matchmaker\<close> and the payload claims
  \<open>id\<close> and \<open>data\<close>, and signs it with HS256 under the secret; signing records the
  algorithm's name in the header claim \<open>alg\<close>.
\<close>

definition sign_game :: "signer \<Rightarrow> string \<Rightarrow> session_id \<Rightarrow> json \<Rightarrow> jwt" where
  "sign_game hs256 secret ident data =
     (let header = [(''alg'', JStr ''HS256'')];
          payload = [(''iss'', JStr ''tic_tac_toe_matchmaker''),
                     (''id'', JNum (uint ident)),
                     (''data'', data)]
      in \<lparr>jwt_header = header, jwt_payload = payload,
          jwt_signature = hs256 secret header payload\<rparr>)"

datatype match_event = Send_token session_id jwt | Send_text session_id string | Close_session session_id

text \<open>
  Modelled from the spec: the matchmaking tick of \<open>matchmaking_server.hpp\<close>, which is not
  among the sources.  The spec: ask \<open>can_match\<close>; if so call \<open>match\<close>; for each emitted
  group sign a token with payload \<open>{id: group_id, data: game_data_json}\<close>, send it as a text
  frame to every listed session and close those sessions; then send each out-of-band
  message to its target session.
\<close>

definition issue_group :: "signer \<Rightarrow> string \<Rightarrow> matched_game \<Rightarrow> match_event list" where
  "issue_group hs256 secret g =
     (case g of (sl, gid, data) \<Rightarrow>
        map (\<lambda>s. Send_token s (sign_game hs256 secret gid data)) sl @ map Close_session sl)"

definition match_players_tick :: "signer \<Rightarrow> string \<Rightarrow> session_id list \<Rightarrow> tic_tac_toe_matchmaker
    \<Rightarrow> match_event list \<times> tic_tac_toe_matchmaker" where
  "match_players_tick hs256 secret session_map mm =
     (if can_match session_map
      then (let ((gl, msgs), mm') = match [] [] session_map mm
            in (concat (map (issue_group hs256 secret) gl)
                  @ map (\<lambda>(s, text). Send_text s text) msgs, mm'))
      else ([], mm))"

section \<open>Containers of the game server\<close>

text \<open>
  \<open>std::map\<close> and \<open>std::set\<close> are kept as lists sorted by key, so that iteration (the
  broadcast loop, the tick loop) has the order of the source.  \<open>map_of\<close> is \<open>find\<close>,
  \<open>map_put\<close> is \<open>m[k] = v\<close>, \<open>map_erase\<close> is \<open>erase(k)\<close>, and \<open>map_index\<close> is reading
  \<open>m[k]\<close>, which inserts the default value under a missing key.
\<close>

fun map_put :: "'k::linorder \<Rightarrow> 'v \<Rightarrow> ('k \<times> 'v) list \<Rightarrow> ('k \<times> 'v) list" where
  "map_put k v [] = [(k, v)]"
| "map_put k v ((k', v') # rest) =
     (if k < k' then (k, v) # (k', v') # rest
      else if k = k' then (k, v) # rest
      else (k', v') # map_put k v rest)"

definition map_erase :: "'k \<Rightarrow> ('k \<times> 'v) list \<Rightarrow> ('k \<times> 'v) list" where
  "map_erase k m = filter (\<lambda>kv. fst kv \<noteq> k) m"

definition map_index :: "'v \<Rightarrow> 'k::linorder \<Rightarrow> ('k \<times> 'v) list \<Rightarrow> 'v \<times> ('k \<times> 'v) list" where
  "map_index dflt k m = (case map_of m k of None \<Rightarrow> (dflt, map_put k dflt m) | Some v \<Rightarrow> (v, m))"

fun set_insert :: "'k::linorder \<Rightarrow> 'k list \<Rightarrow> 'k list" where
  "set_insert k [] = [k]"
| "set_insert k (k' # rest) =
     (if k < k' then k # k' # rest
      else if k = k' then k' # rest
      else k' # set_insert k rest)"

section \<open>Transport, log and game module interfaces (game\_server.hpp)\<close>

text \<open>
  A connection handle is a \<open>weak_ptr\<close> compared by owner; the model numbers the
  connections from 1 and keeps 0 for the empty handle that \<open>connection_hdl()\<close> constructs.
  What the server does to the outside is a list of events: frames sent, connections
  closed, and log lines (level and format string, arguments not rendered).
\<close>

type_synonym connection_hdl = nat

definition empty_hdl :: connection_hdl where
  "empty_hdl = 0"

datatype log_level = Log_trace | Log_debug | Log_error

datatype event =
    Send connection_hdl string
  | Close connection_hdl string
  | Log log_level string

record game_message =
  msg_id :: player_id
  msg_broadcast :: bool
  msg_text :: string

text \<open>
  The template parameter \<open>game_data\<close>: the operations \<open>game_instance\<close> and \<open>game_server\<close>
  call on it, over a module state \<open>'g\<close>.  \<open>gm_make\<close> is the constructor from the login JSON.
\<close>

record 'g game_module =
  gm_make :: "json \<Rightarrow> 'g"
  gm_is_valid :: "'g \<Rightarrow> bool"
  gm_get_creator_id :: "'g \<Rightarrow> player_id"
  gm_get_player_list :: "'g \<Rightarrow> player_id list"
  gm_connect :: "player_id \<Rightarrow> 'g \<Rightarrow> 'g"
  gm_disconnect :: "player_id \<Rightarrow> 'g \<Rightarrow> 'g"
  gm_player_update :: "player_id \<Rightarrow> json \<Rightarrow> 'g \<Rightarrow> 'g"
  gm_game_update :: "int \<Rightarrow> 'g \<Rightarrow> 'g"
  gm_is_done :: "'g \<Rightarrow> bool"
  gm_has_message :: "'g \<Rightarrow> bool"
  gm_get_message :: "'g \<Rightarrow> game_message"
  gm_pop_message :: "'g \<Rightarrow> 'g"

text \<open>
  The exceptions \<open>setup_player\<close> catches, in the order of its handlers, and the template
  parameters \<open>json_traits\<close> and the JWT verifier: \<open>json_parse\<close> (\<open>None\<close> when it throws),
  \<open>jwt_decode\<close> and \<open>jwt_verify\<close> (\<open>None\<close> when the token verifies).
\<close>

datatype login_exception =
    Out_of_range
  | Token_verification_exception
  | Invalid_argument
  | Runtime_error
  | Other_exception

record 'g traits =
  game_data :: "'g game_module"
  json_parse :: "string \<Rightarrow> json option"
  jwt_decode :: "string \<Rightarrow> login_exception + jwt"
  jwt_verify :: "jwt \<Rightarrow> login_exception option"

section \<open>One game instance (game\_server.hpp, \<open>game_instance\<close>)\<close>

record 'g game_instance =
  m_player_connections :: "(player_id \<times> connection_hdl) list"
  m_player_status :: "(player_id \<times> bool) list"
  m_game :: 'g

definition new_game_instance :: "'g \<Rightarrow> 'g game_instance" where
  "new_game_instance data = \<lparr>m_player_connections = [], m_player_status = [], m_game = data\<rparr>"

definition connect :: "'g game_module \<Rightarrow> player_id \<Rightarrow> connection_hdl \<Rightarrow> 'g game_instance
    \<Rightarrow> 'g game_instance \<times> event list" where
  "connect M ident hdl gi =
     (let gi1 = gi\<lparr>m_player_connections := map_put ident hdl (m_player_connections gi)\<rparr>
      in if map_of (m_player_status gi1) ident = None
            \<or> map_of (m_player_status gi1) ident = Some False
         then (gi1\<lparr>m_player_status := map_put ident True (m_player_status gi1),
                   m_game := gm_connect M ident (m_game gi1)\<rparr>,
               [Log Log_trace ''connect called for player {}''])
         else (gi1, [Log Log_trace ''connect called for player {}'']))"

definition disconnect :: "'g game_module \<Rightarrow> player_id \<Rightarrow> 'g game_instance
    \<Rightarrow> 'g game_instance \<times> event list" where
  "disconnect M ident gi =
     (gi\<lparr>m_player_status := map_put ident False (m_player_status gi),
         m_game := gm_disconnect M ident (m_game gi)\<rparr>,
      [Log Log_trace ''disconnect called for player {}''])"

definition is_connected :: "player_id \<Rightarrow> 'g game_instance \<Rightarrow> bool \<times> 'g game_instance" where
  "is_connected ident gi =
     (let (b, st) = map_index False ident (m_player_status gi)
      in (b, gi\<lparr>m_player_status := st\<rparr>))"

definition get_connection :: "player_id \<Rightarrow> 'g game_instance \<Rightarrow> connection_hdl \<times> 'g game_instance" where
  "get_connection ident gi =
     (let (h, cs) = map_index empty_hdl ident (m_player_connections gi)
      in (h, gi\<lparr>m_player_connections := cs\<rparr>))"

definition get_player_list :: "'g game_module \<Rightarrow> 'g game_instance \<Rightarrow> player_id list" where
  "get_player_list M gi = gm_get_player_list M (m_game gi)"

text \<open>
  \<open>broadcast\<close> walks \<open>m_player_connections\<close> in key order; reading \<open>m_player_status[id]\<close>
  may insert a false entry.  \<open>send\<close> reads the status and, for a connected player,
  \<open>m_player_connections[id]\<close>.
\<close>

fun broadcast_loop :: "(player_id \<times> connection_hdl) list \<Rightarrow> string \<Rightarrow> 'g game_instance
    \<Rightarrow> 'g game_instance \<times> event list" where
  "broadcast_loop [] text gi = (gi, [])"
| "broadcast_loop ((ident, hdl) # rest) text gi =
     (let (b, gi1) = is_connected ident gi;
          (gi2, evs) = broadcast_loop rest text gi1
      in (gi2, (if b then [Send hdl text] else []) @ evs))"

definition broadcast :: "string \<Rightarrow> 'g game_instance \<Rightarrow> 'g game_instance \<times> event list" where
  "broadcast text gi = broadcast_loop (m_player_connections gi) text gi"

definition send :: "player_id \<Rightarrow> string \<Rightarrow> 'g game_instance
    \<Rightarrow> bool \<times> 'g game_instance \<times> event list" where
  "send ident text gi =
     (let (b, gi1) = is_connected ident gi
      in if b then (let (h, gi2) = get_connection ident gi1 in (True, gi2, [Send h text]))
         else (False, gi1, []))"

text \<open>
  The drain loop \<open>while (m_game.has_message())\<close>.  Whether it ends depends on the module,
  so the loop is a partial function: \<open>None\<close> is a loop that never ends.
\<close>

definition send_one :: "'g game_module \<Rightarrow> 'g game_instance \<Rightarrow> 'g game_instance \<times> event list" where
  "send_one M gi =
     (let msg = gm_get_message M (m_game gi);
          (gi1, evs) = (if msg_broadcast msg then broadcast (msg_text msg) gi
                        else snd (send (msg_id msg) (msg_text msg) gi))
      in (gi1\<lparr>m_game := gm_pop_message M (m_game gi1)\<rparr>, evs))"

partial_function (option) send_loop :: "'g game_module \<Rightarrow> 'g game_instance \<Rightarrow> event list
    \<Rightarrow> ('g game_instance \<times> event list) option" where
  "send_loop M gi out =
     (if gm_has_message M (m_game gi)
      then send_loop M (fst (send_one M gi)) (out @ snd (send_one M gi))
      else Some (gi, out))"

declare send_loop.simps [code]

definition send_messages :: "'g game_module \<Rightarrow> 'g game_instance
    \<Rightarrow> ('g game_instance \<times> event list) option" where
  "send_messages M gi = send_loop M gi [Log Log_trace ''sending queued messages'']"

definition process_player_update :: "'g traits \<Rightarrow> player_id \<Rightarrow> string \<Rightarrow> 'g game_instance
    \<Rightarrow> ('g game_instance \<times> event list) option" where
  "process_player_update T ident text gi =
     (case json_parse T text of
        None \<Rightarrow> Some (gi, [Log Log_trace ''player_update called for player {}'',
                           Log Log_debug ''update message from {} was not valid json''])
      | Some msg_json \<Rightarrow>
          map_option (\<lambda>(gi', evs). (gi', Log Log_trace ''player_update called for player {}'' # evs))
            (send_messages (game_data T)
               (gi\<lparr>m_game := gm_player_update (game_data T) ident msg_json (m_game gi)\<rparr>)))"

definition game_update :: "'g game_module \<Rightarrow> int \<Rightarrow> 'g game_instance
    \<Rightarrow> (bool \<times> 'g game_instance \<times> event list) option" where
  "game_update M delta_time gi =
     map_option (\<lambda>(gi', evs). (gm_is_done M (m_game gi'), gi',
                                Log Log_trace ''update with timestep: {}'' # evs))
       (send_messages M (gi\<lparr>m_game := gm_game_update M delta_time (m_game gi)\<rparr>))"

section \<open>The game server (game\_server.hpp, \<open>game_server\<close>)\<close>

text \<open>
  Games are shared through \<open>shared_ptr\<close>: the set \<open>m_games\<close> and the reverse index
  \<open>m_player_games\<close> hold pointers to the same objects.  The model keeps the objects in a
  store \<open>heap\<close> from references to game instances; \<open>make_shared\<close> takes a reference that
  is not in the store.  A game is destroyed when the last pointer to it goes: when neither
  \<open>m_games\<close> nor \<open>m_player_games\<close> holds its reference any more.  The destructor logs a
  debug line; the destroyed object stays in the store, where nothing refers to it.
  \<open>emitted\<close> collects the events in the order they happen.
\<close>

type_synonym game_ref = nat

record 'g game_server =
  m_connection_ids :: "(connection_hdl \<times> player_id) list"
  m_player_games :: "(player_id \<times> game_ref) list"
  m_games :: "game_ref list"
  heap :: "(game_ref \<times> 'g game_instance) list"
  emitted :: "event list"

definition new_game_server :: "'g game_server" where
  "new_game_server = \<lparr>m_connection_ids = [], m_player_games = [], m_games = [],
                       heap = [], emitted = []\<rparr>"

text \<open>
  Dereferencing a null \<open>shared_ptr\<close> is undefined behaviour, and a drain loop may never
  return: both are results of the model.
\<close>

datatype fault = Null_pointer | Never_returns

definition fresh_ref :: "(game_ref \<times> 'a) list \<Rightarrow> game_ref" where
  "fresh_ref h = Suc (fold max (map fst h) 0)"

text \<open>
  \<open>m_player_games[id]->\<close>: a missing key yields a null pointer (the entry \<open>operator[]\<close>
  inserts), and following it is the fault.
\<close>

definition player_game :: "'g game_server \<Rightarrow> player_id \<Rightarrow> fault + (game_ref \<times> 'g game_instance)" where
  "player_game s ident =
     (case map_of (m_player_games s) ident of
        None \<Rightarrow> Inl Null_pointer
      | Some r \<Rightarrow> (case map_of (heap s) r of
                     None \<Rightarrow> Inl Null_pointer
                   | Some gi \<Rightarrow> Inr (r, gi)))"

definition emit :: "event list \<Rightarrow> 'g game_server \<Rightarrow> 'g game_server" where
  "emit evs s = s\<lparr>emitted := emitted s @ evs\<rparr>"

definition store :: "game_ref \<Rightarrow> 'g game_instance \<Rightarrow> 'g game_server \<Rightarrow> 'g game_server" where
  "store r gi s = s\<lparr>heap := map_put r gi (heap s)\<rparr>"

text \<open>
  \<open>release r\<close> is what happens after a \<open>shared_ptr\<close> to \<open>r\<close> was dropped: if that was the
  last one, \<open>~game_instance\<close> runs and logs.  \<open>assign_game\<close> is \<open>m_player_games[id] = gs\<close>,
  which drops the pointer the entry held before.
\<close>

definition referenced :: "'g game_server \<Rightarrow> game_ref \<Rightarrow> bool" where
  "referenced s r \<longleftrightarrow> r \<in> set (m_games s) \<or> r \<in> snd ` set (m_player_games s)"

definition release :: "game_ref \<Rightarrow> 'g game_server \<Rightarrow> 'g game_server" where
  "release r s = (if referenced s r then s else emit [Log Log_debug ''destructed game''] s)"

definition assign_game :: "game_ref \<Rightarrow> player_id \<Rightarrow> 'g game_server \<Rightarrow> 'g game_server" where
  "assign_game gs ident s =
     (let s1 = s\<lparr>m_player_games := map_put ident gs (m_player_games s)\<rparr>
      in case map_of (m_player_games s) ident of
           None \<Rightarrow> s1
         | Some r \<Rightarrow> release r s1)"

definition player_connect :: "'g traits \<Rightarrow> connection_hdl \<Rightarrow> 'g \<Rightarrow> 'g game_server
    \<Rightarrow> fault + 'g game_server" where
  "player_connect T hdl data s =
     (let M = game_data T; main_id = gm_get_creator_id M data
      in if map_of (m_player_games s) main_id = None
         then
           (let gs = fresh_ref (heap s);
                s1 = store gs (new_game_instance data) s;
                s2 = s1\<lparr>m_games := set_insert gs (m_games s1)\<rparr>;
                s3 = fold (assign_game gs) (gm_get_player_list M data) s2
            in case player_game s3 main_id of
                 Inl f \<Rightarrow> Inl f
               | Inr (r, gi) \<Rightarrow>
                   (let (gi', evs) = connect M main_id hdl gi
                    in Inr (emit evs (store r gi' s3))))
         else
           (case player_game s main_id of
              Inl f \<Rightarrow> Inl f
            | Inr (r, gi) \<Rightarrow>
                (let (c, gi1) = is_connected main_id gi;
                     (gi2, s1) =
                       (if c
                        then (let (old, gi2) = get_connection main_id gi1
                              in (gi2,
                                  emit [Close old ''player connected again'',
                                        Log Log_debug ''terminating redundant connection for player {}'']
                                    (s\<lparr>m_connection_ids := map_erase old (m_connection_ids s)\<rparr>)))
                        else (gi1, s));
                     (gi3, evs) = connect M main_id hdl gi2
                 in Inr (emit evs (store r gi3 s1)))))"

text \<open>
  \<open>setup_player\<close>: every exception of the \<open>try\<close> block is caught and logged, and control
  continues after the handlers with whatever \<open>login_json\<close> holds by then: null if the
  exception came before the assignment, the \<open>game_data\<close> claim if \<open>verify\<close> threw.
\<close>

definition login_log :: "login_exception \<Rightarrow> event" where
  "login_log e =
     (case e of
        Out_of_range \<Rightarrow> Log Log_debug ''connection provided jwt without gam_data claim''
      | Token_verification_exception \<Rightarrow>
          Log Log_debug ''connection provided jwt that could not be verified''
      | Invalid_argument \<Rightarrow> Log Log_debug ''connection provided invalid jwt token string''
      | Runtime_error \<Rightarrow> Log Log_debug ''connection provided invalid json in jwt''
      | Other_exception \<Rightarrow> Log Log_debug ''something else went wrong in login'')"

definition read_login :: "'g traits \<Rightarrow> string \<Rightarrow> json \<times> event list" where
  "read_login T token =
     (case jwt_decode T token of
        Inl e \<Rightarrow> (JNull, [login_log e])
      | Inr decoded_token \<Rightarrow>
          (case map_of (jwt_payload decoded_token) ''game_data'' of
             None \<Rightarrow> (JNull, [login_log Out_of_range])
           | Some claim \<Rightarrow>
               (case jwt_verify T decoded_token of
                  Some e \<Rightarrow> (claim, [login_log e])
                | None \<Rightarrow> (claim, []))))"

definition setup_player :: "'g traits \<Rightarrow> connection_hdl \<Rightarrow> string \<Rightarrow> 'g game_server
    \<Rightarrow> fault + 'g game_server" where
  "setup_player T hdl token s =
     (let (login_json, evs) = read_login T token;
          s1 = emit evs s;
          d = gm_make (game_data T) login_json
      in if gm_is_valid (game_data T) d
         then (let ident = gm_get_creator_id (game_data T) d;
                   s2 = emit [Log Log_debug ''assigning connection to id: {}'']
                          (s1\<lparr>m_connection_ids := map_put hdl ident (m_connection_ids s1)\<rparr>)
               in player_connect T hdl d s2)
         else Inr (emit [Log Log_debug ''connection provided incorrect login json''] s1))"

text \<open>
  \<open>player_disconnect\<close>: \<open>m_connection_ids[hdl]\<close> reads the id (0 under a missing key) and
  the entry is erased; then the player's game is told and the reverse-index entry erased,
  which drops a pointer to the game.
\<close>

definition player_disconnect :: "'g traits \<Rightarrow> connection_hdl \<Rightarrow> 'g game_server
    \<Rightarrow> fault + 'g game_server" where
  "player_disconnect T hdl s =
     (let ident = fst (map_index 0 hdl (m_connection_ids s));
          s1 = s\<lparr>m_connection_ids := map_erase hdl (m_connection_ids s)\<rparr>
      in case player_game s1 ident of
           Inl f \<Rightarrow> Inl f
         | Inr (r, gi) \<Rightarrow>
             (let (gi', evs) = disconnect (game_data T) ident gi;
                  s2 = emit evs (store r gi' s1);
                  s3 = s2\<lparr>m_player_games := map_erase ident (m_player_games s2)\<rparr>
              in Inr (emit [Log Log_debug ''player {} disconnected''] (release r s3))))"

text \<open>One turn of the \<open>process_messages\<close> loop, on the action taken from the queue.\<close>

datatype action =
    SUBSCRIBE connection_hdl
  | UNSUBSCRIBE connection_hdl
  | MESSAGE connection_hdl string

fun process_action :: "'g traits \<Rightarrow> action \<Rightarrow> 'g game_server \<Rightarrow> fault + 'g game_server" where
  "process_action T (SUBSCRIBE hdl) s = Inr (emit [Log Log_trace ''processing SUBSCRIBE action''] s)"
| "process_action T (UNSUBSCRIBE hdl) s =
     (let s1 = emit [Log Log_trace ''processing UNSUBSCRIBE action''] s
      in if map_of (m_connection_ids s1) hdl = None
         then Inr (emit [Log Log_debug ''player disconnected without providing id''] s1)
         else player_disconnect T hdl s1)"
| "process_action T (MESSAGE hdl payload) s =
     (let s1 = emit [Log Log_trace ''processing MESSAGE action''] s
      in case map_of (m_connection_ids s1) hdl of
           None \<Rightarrow>
             setup_player T hdl payload
               (emit [Log Log_debug ''recieved message from connection w/no id''] s1)
         | Some ident \<Rightarrow>
             (let s2 = emit [Log Log_debug ''received message from id: {}''] s1
              in case map_of (m_player_games s2) ident of
                   None \<Rightarrow> Inr (emit [Log Log_error ''player {} does not have a game''] s2)
                 | Some r \<Rightarrow>
                     (case map_of (heap s2) r of
                        None \<Rightarrow> Inl Null_pointer
                      | Some gi \<Rightarrow>
                          (case process_player_update T ident payload gi of
                             None \<Rightarrow> Inl Never_returns
                           | Some (gi', evs) \<Rightarrow> Inr (emit evs (store r gi' s2))))))"

fun process_actions :: "'g traits \<Rightarrow> action list \<Rightarrow> 'g game_server \<Rightarrow> fault + 'g game_server" where
  "process_actions T [] s = Inr s"
| "process_actions T (a # rest) s =
     (case process_action T a s of Inl f \<Rightarrow> Inl f | Inr s' \<Rightarrow> process_actions T rest s')"

text \<open>
  The body of the tick of \<open>update_games\<close>, run when \<open>delta_time >= timestep\<close>: a game whose
  \<open>game_update\<close> returns true is stepped over (\<open>it++\<close>); for the others the handles of the
  listed players are closed and the game is erased from \<open>m_games\<close>, and the loop's own
  pointer \<open>game\<close> is dropped at the end of the turn.
\<close>

definition timestep :: int where
  "timestep = 500"

fun close_players :: "player_id list \<Rightarrow> 'g game_instance \<Rightarrow> 'g game_instance \<times> event list" where
  "close_players [] gi = (gi, [])"
| "close_players (ident # rest) gi =
     (let (hdl, gi1) = get_connection ident gi;
          (gi2, evs) = close_players rest gi1
      in (gi2, Close hdl ''game ended'' # evs))"

fun update_loop :: "'g game_module \<Rightarrow> int \<Rightarrow> game_ref list \<Rightarrow> 'g game_server
    \<Rightarrow> fault + 'g game_server" where
  "update_loop M delta_time [] s = Inr s"
| "update_loop M delta_time (r # rest) s =
     (case map_of (heap s) r of
        None \<Rightarrow> Inl Null_pointer
      | Some game \<Rightarrow>
          (case game_update M delta_time game of
             None \<Rightarrow> Inl Never_returns
           | Some (result, game1, evs) \<Rightarrow>
               if result
               then update_loop M delta_time rest (emit evs (store r game1 s))
               else (let ids = get_player_list M game1;
                         (game2, closes) = close_players ids game1;
                         s1 = emit (evs @ [Log Log_debug ''game ended''] @ closes
                                      @ [Log Log_trace ''erasing game from list''])
                                (store r game2 s)
                     in update_loop M delta_time rest
                          (release r (s1\<lparr>m_games := remove1 r (m_games s1)\<rparr>)))))"

definition update_games :: "'g traits \<Rightarrow> int \<Rightarrow> 'g game_server \<Rightarrow> fault + 'g game_server" where
  "update_games T delta_time s =
     (if delta_time \<ge> timestep then update_loop (game_data T) delta_time (m_games s) s
      else Inr s)"

section \<open>Notions used to state the properties\<close>

text \<open>A player is marked connected when \<open>m_player_status\<close> holds true for it.\<close>

definition marked_connected :: "'g game_instance \<Rightarrow> player_id \<Rightarrow> bool" where
  "marked_connected gi ident \<longleftrightarrow> map_of (m_player_status gi) ident = Some True"

text \<open>
  What one outgoing message should put on the wire: a broadcast goes to the recorded handle
  of every player marked connected, a targeted message to the recorded handle of its target
  if that player is marked connected, and to nobody otherwise.
\<close>

definition deliver :: "'g game_instance \<Rightarrow> game_message \<Rightarrow> event list" where
  "deliver gi msg =
     (if msg_broadcast msg
      then map (\<lambda>kv. Send (snd kv) (msg_text msg))
             (filter (\<lambda>kv. marked_connected gi (fst kv)) (m_player_connections gi))
      else if marked_connected gi (msg_id msg)
           then [Send (case map_of (m_player_connections gi) (msg_id msg) of
                         None \<Rightarrow> empty_hdl | Some h \<Rightarrow> h) (msg_text msg)]
           else [])"

text \<open>
  Every game instance the server builds records a handle for each player it marks
  connected (\<open>connect\<close> writes both maps).
\<close>

definition connected_have_handles :: "'g game_instance \<Rightarrow> bool" where
  "connected_have_handles gi \<longleftrightarrow>
     (\<forall>kv \<in> set (m_player_status gi). snd kv \<longrightarrow> map_of (m_player_connections gi) (fst kv) \<noteq> None)"

text \<open>
  A module's output queue seen as a list: \<open>has_message\<close> tests it, \<open>get_message\<close> is its
  head and \<open>pop_message\<close> drops the head.
\<close>

definition queue_view :: "'g game_module \<Rightarrow> ('g \<Rightarrow> game_message list) \<Rightarrow> bool" where
  "queue_view M q \<longleftrightarrow>
     (\<forall>g. gm_has_message M g = (q g \<noteq> [])
        \<and> (q g \<noteq> [] \<longrightarrow> gm_get_message M g = hd (q g) \<and> q (gm_pop_message M g) = tl (q g)))"

text \<open>The reverse index points into the set of games.\<close>

definition index_in_games :: "'g game_server \<Rightarrow> bool" where
  "index_in_games s \<longleftrightarrow> (\<forall>kv \<in> set (m_player_games s). snd kv \<in> set (m_games s))"

section \<open>A small game module for running the server on concrete inputs\<close>

text \<open>
  The server is generic in its game module and in the token and JSON libraries.  To run
  the model, this module accepts the login JSON the tic-tac-toe constructor accepts, reads
  the creator and the player list from it, answers a connect with a message to that player
  and a move with a broadcast, and is done when its clock has run out.  Tokens and frames
  are a handful of fixed strings.
\<close>

record demo_game =
  dg_valid :: bool
  dg_creator :: player_id
  dg_players :: "player_id list"
  dg_clock :: int
  dg_queue :: "game_message list"

definition json_ids :: "json \<Rightarrow> player_id list" where
  "json_ids j = (case j of JArr xs \<Rightarrow> concat (map (\<lambda>x. case x of JNum n \<Rightarrow> [nat n] | _ \<Rightarrow> []) xs)
                         | _ \<Rightarrow> [])"

definition demo_make :: "json \<Rightarrow> demo_game" where
  "demo_make j =
     \<lparr>dg_valid = is_valid (make_tic_tac_toe_game j),
      dg_creator = (case json_at j ''creator'' of Inr (JNum n) \<Rightarrow> nat n | _ \<Rightarrow> 0),
      dg_players = (case json_at j ''players'' of Inr ids \<Rightarrow> json_ids ids | _ \<Rightarrow> []),
      dg_clock = 1000,
      dg_queue = []\<rparr>"

definition demo_module :: "demo_game game_module" where
  "demo_module =
     \<lparr>gm_make = demo_make,
      gm_is_valid = dg_valid,
      gm_get_creator_id = dg_creator,
      gm_get_player_list = dg_players,
      gm_connect = (\<lambda>ident g. g\<lparr>dg_queue := dg_queue g
                        @ [\<lparr>msg_id = ident, msg_broadcast = False, msg_text = ''state''\<rparr>]\<rparr>),
      gm_disconnect = (\<lambda>ident g. g),
      gm_player_update = (\<lambda>ident j g. g\<lparr>dg_queue := dg_queue g
                        @ [\<lparr>msg_id = ident, msg_broadcast = True, msg_text = ''move''\<rparr>]\<rparr>),
      gm_game_update = (\<lambda>delta_time g. g\<lparr>dg_clock := dg_clock g - delta_time\<rparr>),
      gm_is_done = (\<lambda>g. dg_clock g \<le> 0),
      gm_has_message = (\<lambda>g. dg_queue g \<noteq> []),
      gm_get_message = (\<lambda>g. case dg_queue g of
                               [] \<Rightarrow> \<lparr>msg_id = 0, msg_broadcast = False, msg_text = []\<rparr>
                             | m # _ \<Rightarrow> m),
      gm_pop_message = (\<lambda>g. g\<lparr>dg_queue := tl (dg_queue g)\<rparr>)\<rparr>"

definition demo_login :: "nat \<Rightarrow> json" where
  "demo_login creator =
     JObj [(''matched'', JBool True), (''creator'', JNum (int creator)),
           (''players'', JArr [JNum 1, JNum 2])]"

definition demo_token :: "json \<Rightarrow> string \<Rightarrow> jwt" where
  "demo_token claim sig =
     \<lparr>jwt_header = [(''alg'', JStr ''HS256'')],
      jwt_payload = [(''iss'', JStr ''tic_tac_toe_matchmaker''), (''game_data'', claim)],
      jwt_signature = sig\<rparr>"

definition demo_decode :: "string \<Rightarrow> login_exception + jwt" where
  "demo_decode token =
     (if token = ''alice'' then Inr (demo_token (demo_login 1) ''good'')
      else if token = ''bob'' then Inr (demo_token (demo_login 2) ''good'')
      else if token = ''forged'' then Inr (demo_token (demo_login 1) ''bad'')
      else if token = ''cancel'' then Inr (demo_token get_cancel_data ''good'')
      else Inl Invalid_argument)"

definition demo_verify :: "jwt \<Rightarrow> login_exception option" where
  "demo_verify t = (if jwt_signature t = ''good'' then None else Some Token_verification_exception)"

definition demo_parse :: "string \<Rightarrow> json option" where
  "demo_parse text = (if text = ''{\"move\":[0,0]}'' then Some (JObj [(''move'', JArr [JNum 0, JNum 0])])
                      else None)"

definition demo_traits :: "demo_game traits" where
  "demo_traits = \<lparr>game_data = demo_module, json_parse = demo_parse,
                   jwt_decode = demo_decode, jwt_verify = demo_verify\<rparr>"

text \<open>A game instance in which player 1 is connected on handle 7.\<close>

definition demo_instance :: "demo_game game_instance" where
  "demo_instance = fst (connect demo_module 1 7 (new_game_instance (demo_make (demo_login 1))))"

text \<open>
  The same instance after player 2 connected on handle 8 and disconnected again, and after
  a move of player 1: the module's queue holds a message for each player and a broadcast.
\<close>

definition demo_room :: "demo_game game_instance" where
  "demo_room =
     (let g1 = fst (connect demo_module 2 8 demo_instance);
          g2 = fst (disconnect demo_module 2 g1)
      in g2\<lparr>m_game := gm_player_update demo_module 1 JNull (m_game g2)\<rparr>)"

text \<open>
  Server states written out.  \<open>demo_lobby\<close> is the server after the login of player 1 on
  handle 1: one game for the players 1 and 2.  \<open>demo_two_games\<close> is the server after player
  1 and player 2 logged in (handles 1 and 2), handle 1 closed, and both logged in again
  (handles 3 and 4): the second login of player 1 found no game for it and made a new one
  for both players, so handle 2 is still bound to player 2 while the game of player 2
  records handle 4.  \<open>forget_log\<close> drops the events, to compare states.
\<close>

definition forget_log :: "'g game_server \<Rightarrow> 'g game_server" where
  "forget_log s = s\<lparr>emitted := []\<rparr>"

definition demo_state :: "player_id \<Rightarrow> game_message" where
  "demo_state p = \<lparr>msg_id = p, msg_broadcast = False, msg_text = ''state''\<rparr>"

definition demo_game_of :: "game_message list \<Rightarrow> demo_game" where
  "demo_game_of queue = \<lparr>dg_valid = True, dg_creator = 1, dg_players = [1, 2],
                          dg_clock = 1000, dg_queue = queue\<rparr>"

definition demo_lobby :: "demo_game game_server" where
  "demo_lobby =
     \<lparr>m_connection_ids = [(1, 1)],
      m_player_games = [(1, 1), (2, 1)],
      m_games = [1],
      heap = [(1, \<lparr>m_player_connections = [(1, 1)], m_player_status = [(1, True)],
                   m_game = demo_game_of [demo_state 1]\<rparr>)],
      emitted = []\<rparr>"

definition demo_first_game :: "demo_game game_instance" where
  "demo_first_game =
     \<lparr>m_player_connections = [(1, 1), (2, 2)], m_player_status = [(1, False), (2, True)],
      m_game = demo_game_of [demo_state 1, demo_state 2]\<rparr>"

definition demo_second_game :: "demo_game game_instance" where
  "demo_second_game =
     \<lparr>m_player_connections = [(1, 3), (2, 4)], m_player_status = [(1, True), (2, True)],
      m_game = demo_game_of [demo_state 1, demo_state 2]\<rparr>"

definition demo_two_games :: "demo_game game_server" where
  "demo_two_games =
     \<lparr>m_connection_ids = [(2, 2), (3, 1), (4, 2)],
      m_player_games = [(1, 2), (2, 2)],
      m_games = [1, 2],
      heap = [(1, demo_first_game), (2, demo_second_game)],
      emitted = []\<rparr>"

text \<open>The server after player 1 and player 2 logged in on the handles 1 and 2.\<close>

definition demo_both :: "demo_game game_server" where
  "demo_both =
     \<lparr>m_connection_ids = [(1, 1), (2, 2)],
      m_player_games = [(1, 1), (2, 1)],
      m_games = [1],
      heap = [(1, \<lparr>m_player_connections = [(1, 1), (2, 2)],
                   m_player_status = [(1, True), (2, True)],
                   m_game = demo_game_of [demo_state 1, demo_state 2]\<rparr>)],
      emitted = []\<rparr>"

section \<open>Properties of the board\<close>

lemma cell_index_small:
  assumes "length (m_board b) = 9" "0 \<le> x" "x \<le> 2" "0 \<le> y" "y \<le> 2"
  shows "cell_index b x y = Some (nat (x + 3 * y))"
  using assms by (simp add: cell_index_def int_ok_def Let_def)

lemma check_line_some:
  assumes "\<forall>i \<in> set ns. cell_index b (fst (cell i)) (snd (cell i)) \<noteq> None"
  shows "\<exists>r. check_line b cell s ns = Some r"
  using assms by (induction ns) (auto simp: get_value_def split: option.splits)

lemma move_ok:
  assumes len: "length (m_board b) = 9" and xy: "0 \<le> x" "x \<le> 2" "0 \<le> y" "y \<le> 2"
  shows "\<exists>b'. move b x y s = Some b' \<and> m_board b' = (m_board b)[nat (x + 3 * y) := s]
           \<and> m_move_count b' = m_move_count b + 1"
proof -
  define b2 where "b2 = b\<lparr>m_board := (m_board b)[nat (x + 3 * y) := s], m_move_count := m_move_count b + 1\<rparr>"
  have sv: "set_value b x y s = Some (b\<lparr>m_board := (m_board b)[nat (x + 3 * y) := s]\<rparr>)"
    using cell_index_small [OF len xy] by (simp add: set_value_def)
  have len2: "length (m_board b2) = 9" using len by (simp add: b2_def)
  obtain c1 where c1: "check_line b2 (\<lambda>i. (x, i)) s [0, 1, 2] = Some c1"
    using check_line_some [of "[0, 1, 2]" b2 "\<lambda>i. (x, i)" s] cell_index_small [OF len2] xy by auto
  obtain c2 where c2: "check_line b2 (\<lambda>i. (i, y)) s [0, 1, 2] = Some c2"
    using check_line_some [of "[0, 1, 2]" b2 "\<lambda>i. (i, y)" s] cell_index_small [OF len2] xy by auto
  obtain c3 where c3: "check_line b2 (\<lambda>i. (i, i)) s [0, 1, 2] = Some c3"
    using check_line_some [of "[0, 1, 2]" b2 "\<lambda>i. (i, i)" s] cell_index_small [OF len2] by auto
  obtain c4 where c4: "check_line b2 (\<lambda>i. (i, 2 - i)) s [0, 1, 2] = Some c4"
    using check_line_some [of "[0, 1, 2]" b2 "\<lambda>i. (i, 2 - i)" s] cell_index_small [OF len2] by auto
  have "move b x y s = Some b2 \<or> move b x y s = Some (b2\<lparr>m_state := s\<rparr>)"
    unfolding move_def sv using c1 c2 c3 c4
    by (simp add: b2_def [symmetric] Let_def del: check_line.simps split: bool.splits)
  then show ?thesis by (auto simp: b2_def)
qed

lemma small_coord:
  fixes i :: "32 word"
  assumes "\<not> i > 2"
  shows "sint i = uint i \<and> uint i \<le> 2 \<and> nat (uint i) = unat i"
proof -
  have le: "i \<le> 2" using assms by simp
  then have u: "uint i \<le> 2" by (simp add: word_le_def)
  have "sint i = uint i"
  proof -
    have "(- (2 ^ 31) :: int) \<le> 0" by simp
    also have "0 \<le> uint i" by simp
    finally have "- (2 ^ 31) \<le> uint i" .
    moreover have "uint i < 2 ^ 31" using u by simp
    ultimately show ?thesis
      unfolding sint_uint by (simp add: signed_take_bit_int_eq_self)
  qed
  with u show ?thesis by simp
qed

lemma small_cell:
  fixes i j :: "32 word"
  assumes "length (m_board b) = 9" "\<not> i > 2" "\<not> j > 2"
  shows "cell_index b (sint i) (sint j) = Some (unat i + 3 * unat j)"
    and "nat (sint i + 3 * sint j) = unat i + 3 * unat j"
    and "0 \<le> sint i" "sint i \<le> 2" "0 \<le> sint j" "sint j \<le> 2"
proof -
  note i = small_coord [OF assms(2)] and j = small_coord [OF assms(3)]
  show k: "nat (sint i + 3 * sint j) = unat i + 3 * unat j"
    using i j by (simp add: nat_add_distrib nat_mult_distrib)
  show "0 \<le> sint i" "sint i \<le> 2" "0 \<le> sint j" "sint j \<le> 2" using i j by simp_all
  then show "cell_index b (sint i) (sint j) = Some (unat i + 3 * unat j)"
    using cell_index_small [OF assms(1), of "sint i" "sint j"] k by simp
qed

lemma add_x_reject:
  assumes "length (m_board b) = 9" "i > 2 \<or> j > 2 \<or> m_board b ! (unat i + 3 * unat j) \<noteq> 0"
  shows "add_x b i j = Some (False, b)"
proof (cases "i > 2 \<or> j > 2")
  case True then show ?thesis by (simp add: add_x_def)
next
  case False
  then have "cell_index b (sint i) (sint j) = Some (unat i + 3 * unat j)"
    using small_cell(1) [OF assms(1)] by simp
  with False assms(2) show ?thesis by (simp add: add_x_def get_value_def EMPTY_VAL_def)
qed

lemma add_x_accept:
  assumes "length (m_board b) = 9" "\<not> (i > 2 \<or> j > 2 \<or> m_board b ! (unat i + 3 * unat j) \<noteq> 0)"
  shows "\<exists>b'. add_x b i j = Some (True, b') \<and> m_board b' = (m_board b)[unat i + 3 * unat j := 1]
            \<and> m_move_count b' = m_move_count b + 1"
proof -
  from assms(2) have ij: "\<not> i > 2" "\<not> j > 2" by simp_all
  note sc = small_cell [OF assms(1) ij]
  obtain b' where "move b (sint i) (sint j) X_VAL = Some b'"
      "m_board b' = (m_board b)[unat i + 3 * unat j := X_VAL]" "m_move_count b' = m_move_count b + 1"
    using move_ok [OF assms(1) sc(3-6), of X_VAL] sc(2) by auto
  with assms(2) sc(1) show ?thesis by (simp add: add_x_def get_value_def EMPTY_VAL_def X_VAL_def)
qed

lemma add_o_reject:
  assumes "length (m_board b) = 9" "i > 2 \<or> j > 2 \<or> m_board b ! (unat i + 3 * unat j) \<noteq> 0"
  shows "add_o b i j = Some (False, b)"
proof (cases "i > 2 \<or> j > 2")
  case True then show ?thesis by (simp add: add_o_def)
next
  case False
  then have "cell_index b (sint i) (sint j) = Some (unat i + 3 * unat j)"
    using small_cell(1) [OF assms(1)] by simp
  with False assms(2) show ?thesis by (simp add: add_o_def get_value_def EMPTY_VAL_def)
qed

lemma add_o_accept:
  assumes "length (m_board b) = 9" "\<not> (i > 2 \<or> j > 2 \<or> m_board b ! (unat i + 3 * unat j) \<noteq> 0)"
  shows "\<exists>b'. add_o b i j = Some (True, b') \<and> m_board b' = (m_board b)[unat i + 3 * unat j := - 1]
            \<and> m_move_count b' = m_move_count b + 1"
proof -
  from assms(2) have ij: "\<not> i > 2" "\<not> j > 2" by simp_all
  note sc = small_cell [OF assms(1) ij]
  obtain b' where "move b (sint i) (sint j) O_VAL = Some b'"
      "m_board b' = (m_board b)[unat i + 3 * unat j := O_VAL]" "m_move_count b' = m_move_count b + 1"
    using move_ok [OF assms(1) sc(3-6), of O_VAL] sc(2) by auto
  with assms(2) sc(1) show ?thesis by (simp add: add_o_def get_value_def EMPTY_VAL_def O_VAL_def)
qed

lemma filter_update_count:
  assumes "k < length xs" "xs ! k = (0::int)" "s \<noteq> 0"
  shows "length (filter (\<lambda>v. v \<noteq> 0) (xs[k := s])) = Suc (length (filter (\<lambda>v. v \<noteq> 0) xs))"
  using assms
proof (induction xs arbitrary: k)
  case Nil then show ?case by simp
next
  case (Cons a xs) then show ?case by (cases k) auto
qed

lemma board_inv_count: "board_inv b \<Longrightarrow> unat (m_move_count b) \<le> 9"
  unfolding board_inv_def using length_filter_le [of "\<lambda>v. v \<noteq> 0" "m_board b"] by simp

lemma board_inv_step:
  assumes inv: "board_inv b" and k: "k < 9" "m_board b ! k = 0" and s: "s \<noteq> 0"
    and b': "m_board b' = (m_board b)[k := s]" "m_move_count b' = m_move_count b + 1"
  shows "board_inv b'"
proof -
  have len: "length (m_board b) = 9" using inv by (simp add: board_inv_def)
  have cnt: "length (filter (\<lambda>v. v \<noteq> 0) (m_board b')) = Suc (unat (m_move_count b))"
    using filter_update_count [of k "m_board b" s] k s len inv b' by (simp add: board_inv_def)
  have "unat (m_move_count b) \<le> 9" using inv by (rule board_inv_count)
  then have "unat (m_move_count b + 1) = Suc (unat (m_move_count b))"
    by (simp add: unat_word_ariths)
  with cnt len b' show ?thesis by (simp add: board_inv_def)
qed

lemma add_x_inv:
  assumes "board_inv b" "add_x b i j = Some (r, b')"
  shows "board_inv b'"
proof (cases "i > 2 \<or> j > 2 \<or> m_board b ! (unat i + 3 * unat j) \<noteq> 0")
  case True
  with assms add_x_reject [of b i j] show ?thesis by (simp add: board_inv_def)
next
  case False
  have len: "length (m_board b) = 9" using assms(1) by (simp add: board_inv_def)
  from False have "unat i \<le> 2" "unat j \<le> 2" by (simp_all add: word_le_nat_alt not_less)
  then have "unat i + 3 * unat j < 9" by simp
  with add_x_accept [OF len False] assms False show ?thesis
    by (auto intro: board_inv_step [where s = 1])
qed

lemma add_o_inv:
  assumes "board_inv b" "add_o b i j = Some (r, b')"
  shows "board_inv b'"
proof (cases "i > 2 \<or> j > 2 \<or> m_board b ! (unat i + 3 * unat j) \<noteq> 0")
  case True
  with assms add_o_reject [of b i j] show ?thesis by (simp add: board_inv_def)
next
  case False
  have len: "length (m_board b) = 9" using assms(1) by (simp add: board_inv_def)
  from False have "unat i \<le> 2" "unat j \<le> 2" by (simp_all add: word_le_nat_alt not_less)
  then have "unat i + 3 * unat j < 9" by simp
  with add_o_accept [OF len False] assms False show ?thesis
    by (auto intro: board_inv_step [where s = "- 1"])
qed

lemma add_x_total: "length (m_board b) = 9 \<Longrightarrow> \<exists>r b'. add_x b i j = Some (r, b')"
  using add_x_reject [of b i j] add_x_accept [of b i j] by blast

lemma add_o_total: "length (m_board b) = 9 \<Longrightarrow> \<exists>r b'. add_o b i j = Some (r, b')"
  using add_o_reject [of b i j] add_o_accept [of b i j] by blast

lemma new_board_inv: "board_inv new_board"
  by (simp add: board_inv_def new_board_def)

lemma add_all_inv: "board_inv b \<Longrightarrow> \<exists>b'. add_all ms b = Some b' \<and> board_inv b'"
proof (induction ms arbitrary: b)
  case Nil then show ?case by simp
next
  case (Cons m ms)
  obtain is_x i j where m: "m = (is_x, i, j)" by (cases m)
  have len: "length (m_board b) = 9" using Cons.prems by (simp add: board_inv_def)
  show ?case
  proof (cases is_x)
    case True
    obtain r b1 where s: "add_x b i j = Some (r, b1)" using add_x_total [OF len] by blast
    then have "board_inv b1" using add_x_inv Cons.prems by blast
    from Cons.IH [OF this] s m True show ?thesis by simp
  next
    case False
    obtain r b1 where s: "add_o b i j = Some (r, b1)" using add_o_total [OF len] by blast
    then have "board_inv b1" using add_o_inv Cons.prems by blast
    from Cons.IH [OF this] s m False show ?thesis by simp
  qed
qed


text \<open>
  Claim C10.  On a nine-cell board, \<open>add_x (i, j)\<close> and \<open>add_o (i, j)\<close> return false and
  leave the whole board (cells, move count, win state) as it was when \<open>i > 2\<close>, \<open>j > 2\<close> or
  cell \<open>(i, j)\<close> is occupied.  Otherwise they return true, the cell vector differs from the old
  one at index \<open>i + 3 * j\<close> only, and the move count grows by one.  No vector access leaves
  the nine cells (the calls return \<open>Some\<close>), and after any sequence of calls on a fresh board
  the move count is at most nine.
\<close>

theorem add_x_add_o_frame:
  assumes "length (m_board b) = 9"
  shows "(i > 2 \<or> j > 2 \<or> m_board b ! (unat i + 3 * unat j) \<noteq> 0
            \<longrightarrow> add_x b i j = Some (False, b) \<and> add_o b i j = Some (False, b))
       \<and> (\<not> (i > 2 \<or> j > 2 \<or> m_board b ! (unat i + 3 * unat j) \<noteq> 0)
            \<longrightarrow> (\<exists>b'. add_x b i j = Some (True, b')
                      \<and> m_board b' = (m_board b)[unat i + 3 * unat j := 1]
                      \<and> m_move_count b' = m_move_count b + 1)
              \<and> (\<exists>b'. add_o b i j = Some (True, b')
                      \<and> m_board b' = (m_board b)[unat i + 3 * unat j := - 1]
                      \<and> m_move_count b' = m_move_count b + 1))
       \<and> (\<exists>b'. add_all ms new_board = Some b' \<and> length (m_board b') = 9
                \<and> unat (m_move_count b') \<le> 9)"
proof (intro conjI impI)
  show "\<exists>b'. add_all ms new_board = Some b' \<and> length (m_board b') = 9 \<and> unat (m_move_count b') \<le> 9"
    using add_all_inv [OF new_board_inv, of ms] board_inv_count by (auto simp: board_inv_def)
qed (use assms add_x_reject add_o_reject add_x_accept add_o_accept in blast)+

theorem add_x_add_o_frame_witness:
  "length (m_board new_board) = 9
   \<and> (\<exists>b'. add_x new_board 1 1 = Some (True, b')
          \<and> m_board b' = [0, 0, 0, 0, 1, 0, 0, 0, 0] \<and> m_move_count b' = 1)
   \<and> add_o new_board 3 0 = Some (False, new_board)
   \<and> (\<exists>b'. add_all [(True, 1, 1), (False, 1, 1), (False, 0, 2)] new_board = Some b'
          \<and> unat (m_move_count b') \<le> 9)"
proof -
  have len: "length (m_board new_board) = 9" by (simp add: new_board_def)
  have free: "\<not> ((1::32 word) > 2 \<or> (1::32 word) > 2
                 \<or> m_board new_board ! (unat (1::32 word) + 3 * unat (1::32 word)) \<noteq> 0)"
    by (simp add: new_board_def)
  have out: "(3::32 word) > 2 \<or> (0::32 word) > 2
               \<or> m_board new_board ! (unat (3::32 word) + 3 * unat (0::32 word)) \<noteq> 0"
    by simp
  have upd: "(m_board new_board)[unat (1::32 word) + 3 * unat (1::32 word) := 1]
               = [0, 0, 0, 0, 1, 0, 0, 0, 0]"
    by (simp add: new_board_def numeral_eq_Suc)
  have cnt: "m_move_count new_board + 1 = 1" by (simp add: new_board_def)
  note A = add_x_add_o_frame [OF len, of 1 1 "[(True, 1, 1), (False, 1, 1), (False, 0, 2)]"]
  note B = add_x_add_o_frame [OF len, of 3 0 "[]"]
  from A free have "\<exists>b'. add_x new_board 1 1 = Some (True, b')
      \<and> m_board b' = [0, 0, 0, 0, 1, 0, 0, 0, 0] \<and> m_move_count b' = 1"
    unfolding upd cnt by blast
  moreover from B out have "add_o new_board 3 0 = Some (False, new_board)" by blast
  moreover from A have "\<exists>b'. add_all [(True, 1, 1), (False, 1, 1), (False, 0, 2)] new_board = Some b'
      \<and> unat (m_move_count b') \<le> 9" by blast
  ultimately show ?thesis using len by blast
qed

section \<open>Validity of the login JSON\<close>

lemma read_matched_true_iff:
  "read_matched j = Inr True \<longleftrightarrow> (\<exists>kvs. j = JObj kvs \<and> map_of kvs ''matched'' = Some (JBool True))"
proof (cases j)
  case (JObj kvs)
  show ?thesis
  proof (cases "map_of kvs ''matched''")
    case None
    with JObj show ?thesis by (simp add: read_matched_def)
  next
    case (Some v)
    with JObj show ?thesis by (cases v) (simp_all add: read_matched_def)
  qed
qed (simp_all add: read_matched_def)

lemma is_valid_read_matched: "is_valid (make_tic_tac_toe_game j) \<longleftrightarrow> read_matched j = Inr True"
  by (cases "read_matched j") (auto simp: is_valid_def make_tic_tac_toe_game_def Let_def)

lemma setup_player_invalid:
  assumes "\<not> gm_is_valid (game_data T) (gm_make (game_data T) (fst (read_login T token)))"
  shows "setup_player T hdl token s
           = Inr (emit (snd (read_login T token)
                        @ [Log Log_debug ''connection provided incorrect login json'']) s)"
  using assms by (simp add: setup_player_def emit_def split_beta Let_def)

lemma read_login_verified:
  assumes "jwt_decode T token = Inr t" "map_of (jwt_payload t) ''game_data'' = Some claim"
    "jwt_verify T t = None"
  shows "read_login T token = (claim, [])"
  using assms by (simp add: read_login_def)

text \<open>
  Claim C9.  A \<open>tic_tac_toe_game\<close> built from a JSON value is valid exactly when the value
  is an object whose key \<open>matched\<close> holds the boolean true.  The matchmaker's cancel payload
  \<open>{"matched": false}\<close> gives an invalid game, and a login carrying it (even in a token that
  verifies) is turned away by \<open>setup_player\<close> with a debug line only: no session entry, no
  game, no frame.
\<close>

theorem tic_tac_toe_game_valid_iff:
  "(is_valid (make_tic_tac_toe_game j)
      \<longleftrightarrow> (\<exists>kvs. j = JObj kvs \<and> map_of kvs ''matched'' = Some (JBool True)))
   \<and> \<not> is_valid (make_tic_tac_toe_game get_cancel_data)
   \<and> ((\<forall>j'. gm_is_valid (game_data T) (gm_make (game_data T) j') = is_valid (make_tic_tac_toe_game j'))
        \<and> jwt_decode T token = Inr t
        \<and> map_of (jwt_payload t) ''game_data'' = Some get_cancel_data
        \<and> jwt_verify T t = None
      \<longrightarrow> setup_player T hdl token s
            = Inr (emit [Log Log_debug ''connection provided incorrect login json''] s))"
proof (intro conjI impI)
  show iff: "is_valid (make_tic_tac_toe_game j)
      \<longleftrightarrow> (\<exists>kvs. j = JObj kvs \<and> map_of kvs ''matched'' = Some (JBool True))"
    by (simp add: is_valid_read_matched read_matched_true_iff)
  show c: "\<not> is_valid (make_tic_tac_toe_game get_cancel_data)"
    by (simp add: is_valid_read_matched read_matched_def get_cancel_data_def)
  assume h: "(\<forall>j'. gm_is_valid (game_data T) (gm_make (game_data T) j') = is_valid (make_tic_tac_toe_game j'))
        \<and> jwt_decode T token = Inr t
        \<and> map_of (jwt_payload t) ''game_data'' = Some get_cancel_data
        \<and> jwt_verify T t = None"
  then have rl: "read_login T token = (get_cancel_data, [])"
    by (simp add: read_login_verified)
  with h c have "\<not> gm_is_valid (game_data T) (gm_make (game_data T) (fst (read_login T token)))"
    by simp
  from setup_player_invalid [OF this] rl
  show "setup_player T hdl token s
            = Inr (emit [Log Log_debug ''connection provided incorrect login json''] s)"
    by simp
qed

lemma demo_valid: "gm_is_valid (game_data demo_traits) (gm_make (game_data demo_traits) j')
     = is_valid (make_tic_tac_toe_game j')"
  by (simp add: demo_traits_def demo_module_def demo_make_def)

theorem tic_tac_toe_game_valid_iff_witness:
  "is_valid (make_tic_tac_toe_game (JObj [(''matched'', JBool True)]))
   \<and> \<not> is_valid (make_tic_tac_toe_game (JObj [(''matched'', JNum 1)]))
   \<and> setup_player demo_traits 7 ''cancel'' new_game_server
       = Inr (emit [Log Log_debug ''connection provided incorrect login json''] new_game_server)"
proof -
  have d: "jwt_decode demo_traits ''cancel'' = Inr (demo_token get_cancel_data ''good'')"
    by (simp add: demo_traits_def demo_decode_def)
  have p: "map_of (jwt_payload (demo_token get_cancel_data ''good'')) ''game_data'' = Some get_cancel_data"
    by (simp add: demo_token_def)
  have v: "jwt_verify demo_traits (demo_token get_cancel_data ''good'') = None"
    by (simp add: demo_traits_def demo_verify_def demo_token_def)
  note A = tic_tac_toe_game_valid_iff [of "JObj [(''matched'', JBool True)]" demo_traits "''cancel''"
      "demo_token get_cancel_data ''good''" 7 new_game_server]
  note B = tic_tac_toe_game_valid_iff [of "JObj [(''matched'', JNum 1)]" demo_traits "''cancel''"
      "demo_token get_cancel_data ''good''" 7 new_game_server]
  have "is_valid (make_tic_tac_toe_game (JObj [(''matched'', JBool True)]))"
    using A by simp
  moreover have "\<not> is_valid (make_tic_tac_toe_game (JObj [(''matched'', JNum 1)]))"
    using B by simp
  moreover have "setup_player demo_traits 7 ''cancel'' new_game_server
       = Inr (emit [Log Log_debug ''connection provided incorrect login json''] new_game_server)"
    using A d p v demo_valid by blast
  ultimately show ?thesis by blast
qed

section \<open>Tokens issued by the matchmaking tick\<close>

lemma match_loop_data:
  assumes "g \<in> set (fst (match_loop ss sl mm gl))"
  shows "g \<in> set gl \<or> snd (snd g) = JObj [(''matched'', JBool True)]"
  using assms
proof (induction ss arbitrary: sl mm gl)
  case Nil
  then show ?case by simp
next
  case (Cons s ss)
  show ?case
  proof (cases "length (sl @ [s]) > 1")
    case True
    with Cons.prems have "g \<in> set (fst (match_loop ss [] (mm\<lparr>m_sid_count := m_sid_count mm + 1\<rparr>)
        (gl @ [(sl @ [s], m_sid_count mm, JObj [(''matched'', JBool True)])])))"
      by (simp add: Let_def)
    from Cons.IH [OF this] show ?thesis by auto
  next
    case False
    with Cons.prems have "g \<in> set (fst (match_loop ss (sl @ [s]) mm gl))"
      by (simp add: Let_def)
    from Cons.IH [OF this] show ?thesis .
  qed
qed

lemma match_data:
  assumes "match [] [] session_map mm = ((gl, msgs), mm')" "(sl, gid, data) \<in> set gl"
  shows "data = JObj [(''matched'', JBool True)]" and "msgs = []"
proof -
  from assms(1) have gl: "gl = fst (match_loop session_map [] mm [])" and "msgs = []"
    by (auto simp: match_def split_beta)
  then show "msgs = []" by simp
  from match_loop_data [of "(sl, gid, data)" session_map "[]" mm "[]"] assms(2) gl
  show "data = JObj [(''matched'', JBool True)]" by simp
qed

lemma match_none:
  assumes "\<not> can_match session_map"
  shows "fst (fst (match [] [] session_map mm)) = []"
proof -
  from assms have "session_map = [] \<or> (\<exists>s. session_map = [s])"
    by (cases session_map) (auto simp: can_match_def)
  then show ?thesis by (auto simp: match_def)
qed

lemma tick_events:
  assumes "match [] [] session_map mm = ((gl, msgs), mm')"
  shows "fst (match_players_tick hs256 secret session_map mm)
           = concat (map (issue_group hs256 secret) gl) @ map (\<lambda>(s, text). Send_text s text) msgs
         \<and> msgs = []"
proof (cases "can_match session_map")
  case True
  with assms show ?thesis by (auto simp: match_players_tick_def match_def split_beta)
next
  case False
  from match_none [OF this, of mm] assms have "gl = []" by simp
  moreover from assms have "msgs = []" by (auto simp: match_def split_beta)
  ultimately show ?thesis using False by (simp add: match_players_tick_def)
qed

lemma send_token_in_group:
  "Send_token s tok \<in> set (issue_group hs256 secret g)
     \<longleftrightarrow> s \<in> set (fst g) \<and> tok = sign_game hs256 secret (fst (snd g)) (snd (snd g))"
  by (cases g) (auto simp: issue_group_def)

lemma sign_game_claims:
  "map_of (jwt_header (sign_game hs256 secret gid data)) ''alg'' = Some (JStr ''HS256'')"
  "map_of (jwt_payload (sign_game hs256 secret gid data)) ''iss'' = Some (JStr ''tic_tac_toe_matchmaker'')"
  "map_of (jwt_payload (sign_game hs256 secret gid data)) ''id'' = Some (JNum (uint gid))"
  "map_of (jwt_payload (sign_game hs256 secret gid data)) ''data'' = Some data"
  "jwt_signature (sign_game hs256 secret gid data)
     = hs256 secret (jwt_header (sign_game hs256 secret gid data))
         (jwt_payload (sign_game hs256 secret gid data))"
  by (simp_all add: sign_game_def Let_def)

text \<open>
  Claim C8.  In a matchmaking tick, every session listed in a group the matchmaker emits is
  sent the token \<open>sign_game\<close> makes from the group's id and game JSON, and every token the
  tick sends is such a token for a group listing the receiver: its header names HS256, its
  signature is the HS256 signature of its header and payload under the secret, its issuer
  is \<open>tic_tac_toe_matchmaker\<close>, its claims \<open>id\<close> and \<open>data\<close> are the group's id and game JSON,
  and that JSON has \<open>matched\<close> equal to true.
\<close>

theorem matchmaking_tick_tokens:
  assumes "match [] [] session_map mm = ((gl, msgs), mm')"
  shows "(\<forall>g \<in> set gl. \<forall>s \<in> set (fst g).
            Send_token s (sign_game hs256 secret (fst (snd g)) (snd (snd g)))
              \<in> set (fst (match_players_tick hs256 secret session_map mm)))
       \<and> (\<forall>s tok. Send_token s tok \<in> set (fst (match_players_tick hs256 secret session_map mm))
            \<longrightarrow> (\<exists>g \<in> set gl. s \<in> set (fst g)
                   \<and> tok = sign_game hs256 secret (fst (snd g)) (snd (snd g))
                   \<and> map_of (jwt_header tok) ''alg'' = Some (JStr ''HS256'')
                   \<and> jwt_signature tok = hs256 secret (jwt_header tok) (jwt_payload tok)
                   \<and> map_of (jwt_payload tok) ''iss'' = Some (JStr ''tic_tac_toe_matchmaker'')
                   \<and> map_of (jwt_payload tok) ''id'' = Some (JNum (uint (fst (snd g))))
                   \<and> map_of (jwt_payload tok) ''data'' = Some (snd (snd g))
                   \<and> json_at (snd (snd g)) ''matched'' = Inr (JBool True)))"
proof -
  have ev: "set (fst (match_players_tick hs256 secret session_map mm))
              = (\<Union>g \<in> set gl. set (issue_group hs256 secret g))"
    using tick_events [OF assms, of hs256 secret] by simp
  have data: "json_at (snd (snd g)) ''matched'' = Inr (JBool True)" if "g \<in> set gl" for g
    using match_data(1) [OF assms, of "fst g" "fst (snd g)" "snd (snd g)"] that by simp
  show ?thesis
  proof (intro conjI ballI allI impI)
    fix g s assume "g \<in> set gl" "s \<in> set (fst g)"
    then show "Send_token s (sign_game hs256 secret (fst (snd g)) (snd (snd g)))
              \<in> set (fst (match_players_tick hs256 secret session_map mm))"
      unfolding ev by (auto simp: send_token_in_group)
  next
    fix s tok
    assume "Send_token s tok \<in> set (fst (match_players_tick hs256 secret session_map mm))"
    then obtain g where g: "g \<in> set gl" "s \<in> set (fst g)"
        "tok = sign_game hs256 secret (fst (snd g)) (snd (snd g))"
      unfolding ev by (auto simp: send_token_in_group)
    show "\<exists>g \<in> set gl. s \<in> set (fst g)
                   \<and> tok = sign_game hs256 secret (fst (snd g)) (snd (snd g))
                   \<and> map_of (jwt_header tok) ''alg'' = Some (JStr ''HS256'')
                   \<and> jwt_signature tok = hs256 secret (jwt_header tok) (jwt_payload tok)
                   \<and> map_of (jwt_payload tok) ''iss'' = Some (JStr ''tic_tac_toe_matchmaker'')
                   \<and> map_of (jwt_payload tok) ''id'' = Some (JNum (uint (fst (snd g))))
                   \<and> map_of (jwt_payload tok) ''data'' = Some (snd (snd g))
                   \<and> json_at (snd (snd g)) ''matched'' = Inr (JBool True)"
    proof (rule bexI [OF _ g(1)], intro conjI)
      show "json_at (snd (snd g)) ''matched'' = Inr (JBool True)" by (rule data [OF g(1)])
    qed (simp_all only: g sign_game_claims)
  qed
qed

theorem matchmaking_tick_tokens_witness:
  "match [] [] [10, 11, 12] new_matchmaker
     = (([([10, 11], 0, JObj [(''matched'', JBool True)])], []), \<lparr>m_sid_count = 1\<rparr>)
   \<and> Send_token 11 (sign_game (\<lambda>secret h p. secret) ''secret'' 0 (JObj [(''matched'', JBool True)]))
       \<in> set (fst (match_players_tick (\<lambda>secret h p. secret) ''secret'' [10, 11, 12] new_matchmaker))"
proof -
  have m: "match [] [] [10, 11, 12] new_matchmaker
     = (([([10, 11], 0, JObj [(''matched'', JBool True)])], []), \<lparr>m_sid_count = 1\<rparr>)"
    by (simp add: match_def new_matchmaker_def)
  from matchmaking_tick_tokens [OF m, of "\<lambda>secret h p. secret" "''secret''"]
  have "\<forall>g \<in> set [([10, 11], 0, JObj [(''matched'', JBool True)])]. \<forall>s \<in> set (fst g).
            Send_token s (sign_game (\<lambda>secret h p. secret) ''secret'' (fst (snd g)) (snd (snd g)))
              \<in> set (fst (match_players_tick (\<lambda>secret h p. secret) ''secret'' [10, 11, 12] new_matchmaker))"
    by (rule conjunct1)
  then have "Send_token 11 (sign_game (\<lambda>secret h p. secret) ''secret'' 0 (JObj [(''matched'', JBool True)]))
       \<in> set (fst (match_players_tick (\<lambda>secret h p. secret) ''secret'' [10, 11, 12] new_matchmaker))"
    by simp
  with m show ?thesis by (rule conjI)
qed

section \<open>Connecting a player and handling its frames\<close>

lemma map_of_map_put: "map_of (map_put k v m) = (map_of m)(k \<mapsto> v)"
  by (induction m) (auto simp: fun_eq_iff)

lemma map_put_twice: "map_put k v (map_put k v m) = map_put k v m"
  by (induction m) auto

lemma connect_connections:
  "m_player_connections (fst (connect M ident hdl gi)) = map_put ident hdl (m_player_connections gi)"
  by (simp add: connect_def Let_def)

lemma connect_events: "snd (connect M ident hdl gi) = [Log Log_trace ''connect called for player {}'']"
  by (simp add: connect_def Let_def)

lemma connect_marks: "marked_connected (fst (connect M ident hdl gi)) ident"
  by (cases "map_of (m_player_status gi) ident")
     (auto simp: connect_def Let_def marked_connected_def map_of_map_put)

lemma connect_when_marked:
  assumes "marked_connected gi ident"
  shows "connect M ident hdl gi
           = (gi\<lparr>m_player_connections := map_put ident hdl (m_player_connections gi)\<rparr>,
              [Log Log_trace ''connect called for player {}''])"
  using assms by (simp add: connect_def Let_def marked_connected_def)

lemma connect_when_unmarked:
  assumes "\<not> marked_connected gi ident"
  shows "connect M ident hdl gi
           = (gi\<lparr>m_player_connections := map_put ident hdl (m_player_connections gi),
                  m_player_status := map_put ident True (m_player_status gi),
                  m_game := gm_connect M ident (m_game gi)\<rparr>,
              [Log Log_trace ''connect called for player {}''])"
proof -
  from assms have "map_of (m_player_status gi) ident = None
      \<or> map_of (m_player_status gi) ident = Some False"
    by (cases "map_of (m_player_status gi) ident") (auto simp: marked_connected_def)
  then show ?thesis by (auto simp: connect_def Let_def)
qed

lemma connect_twice: "connect M ident hdl (fst (connect M ident hdl gi)) = connect M ident hdl gi"
proof -
  let ?gi = "fst (connect M ident hdl gi)"
  have "connect M ident hdl ?gi
          = (?gi\<lparr>m_player_connections := map_put ident hdl (m_player_connections ?gi)\<rparr>,
             [Log Log_trace ''connect called for player {}''])"
    by (rule connect_when_marked [OF connect_marks])
  also have "map_put ident hdl (m_player_connections ?gi) = m_player_connections ?gi"
    by (simp add: connect_connections map_put_twice)
  finally have "connect M ident hdl ?gi = (?gi, snd (connect M ident hdl gi))"
    by (simp add: connect_events)
  then show ?thesis by simp
qed

text \<open>
  Claim C7.  \<open>connect (id, handle)\<close> records the handle and leaves the player marked
  connected.  If the player was marked connected before, the module and the status map are
  untouched; if not, \<open>module.connect (id)\<close> runs once and the status becomes true.  A second
  call with the same arguments changes nothing: it returns the state of the first call.
\<close>

theorem connect_idempotent:
  "map_of (m_player_connections (fst (connect M ident hdl gi))) ident = Some hdl
   \<and> marked_connected (fst (connect M ident hdl gi)) ident
   \<and> (marked_connected gi ident
        \<longrightarrow> m_game (fst (connect M ident hdl gi)) = m_game gi
          \<and> m_player_status (fst (connect M ident hdl gi)) = m_player_status gi)
   \<and> (\<not> marked_connected gi ident
        \<longrightarrow> m_game (fst (connect M ident hdl gi)) = gm_connect M ident (m_game gi)
          \<and> m_player_status (fst (connect M ident hdl gi)) = map_put ident True (m_player_status gi))
   \<and> connect M ident hdl (fst (connect M ident hdl gi)) = connect M ident hdl gi"
proof (intro conjI impI)
  show "map_of (m_player_connections (fst (connect M ident hdl gi))) ident = Some hdl"
    by (simp add: connect_connections map_of_map_put)
  show "marked_connected (fst (connect M ident hdl gi)) ident" by (rule connect_marks)
  show "connect M ident hdl (fst (connect M ident hdl gi)) = connect M ident hdl gi"
    by (rule connect_twice)
qed (simp_all add: connect_when_marked connect_when_unmarked)

theorem connect_idempotent_witness:
  "\<not> marked_connected (new_game_instance (demo_make (demo_login 1))) 1
   \<and> m_player_status (fst (connect demo_module 1 7 (new_game_instance (demo_make (demo_login 1)))))
       = [(1, True)]
   \<and> marked_connected (fst (connect demo_module 1 7 (new_game_instance (demo_make (demo_login 1))))) 1
   \<and> m_game (fst (connect demo_module 1 7
         (fst (connect demo_module 1 7 (new_game_instance (demo_make (demo_login 1)))))))
       = m_game (fst (connect demo_module 1 7 (new_game_instance (demo_make (demo_login 1)))))"
proof -
  let ?g0 = "new_game_instance (demo_make (demo_login 1))"
  let ?g1 = "fst (connect demo_module 1 7 ?g0)"
  have un: "\<not> marked_connected ?g0 1"
    by (simp add: marked_connected_def new_game_instance_def)
  have st: "map_put (1::nat) True (m_player_status ?g0) = [(1, True)]"
    by (simp add: new_game_instance_def)
  note A = connect_idempotent [of demo_module 1 7 ?g0]
  note B = connect_idempotent [of demo_module 1 7 ?g1]
  from A un st have 1: "m_player_status ?g1 = [(1, True)]" by simp
  from A have 2: "marked_connected ?g1 1" by blast
  from B 2 have 3: "m_game (fst (connect demo_module 1 7 ?g1)) = m_game ?g1" by blast
  from un 1 2 3 show ?thesis by blast
qed

lemma send_loop_drained:
  assumes "send_loop M gi out = Some r"
  shows "\<not> gm_has_message M (m_game (fst r))"
proof (rule send_loop.raw_induct
    [where P = "\<lambda>M gi out r. \<not> gm_has_message M (m_game (fst r))", OF _ assms])
  fix f M gi out r
  assume ih: "\<And>gi out b y. f gi out b = Some y \<Longrightarrow> \<not> gm_has_message gi (m_game (fst y))"
    and step: "(if gm_has_message M (m_game gi)
                then f M (fst (send_one M gi)) (out @ snd (send_one M gi))
                else Some (gi, out)) = Some r"
  show "\<not> gm_has_message M (m_game (fst r))"
  proof (cases "gm_has_message M (m_game gi)")
    case True
    with step ih show ?thesis by simp
  next
    case False
    with step show ?thesis by auto
  qed
qed

lemma send_messages_drained:
  "send_messages M gi = Some (gi', evs) \<Longrightarrow> \<not> gm_has_message M (m_game gi')"
  using send_loop_drained [of M gi _ "(gi', evs)"] by (simp add: send_messages_def)

section \<open>Draining the module's outgoing messages\<close>

lemma set_map_put: "set (map_put k v m) \<subseteq> insert (k, v) (set m)"
  by (induction m) (auto split: if_splits)

lemma marked_has_handle:
  assumes "connected_have_handles gi" "marked_connected gi ident"
  shows "\<exists>h. map_of (m_player_connections gi) ident = Some h"
proof -
  from assms(2) have "(ident, True) \<in> set (m_player_status gi)"
    unfolding marked_connected_def by (rule map_of_SomeD)
  with assms(1) have "map_of (m_player_connections gi) (fst (ident, True)) \<noteq> None"
    unfolding connected_have_handles_def by (metis snd_conv)
  then show ?thesis by simp
qed

lemma is_connected_result:
  "fst (is_connected ident gi) = marked_connected gi ident"
  "m_player_connections (snd (is_connected ident gi)) = m_player_connections gi"
  "m_game (snd (is_connected ident gi)) = m_game gi"
  "marked_connected (snd (is_connected ident gi)) p = marked_connected gi p"
  by (cases "map_of (m_player_status gi) ident";
      auto simp: is_connected_def map_index_def marked_connected_def map_of_map_put)+

lemma is_connected_handles:
  "connected_have_handles gi \<Longrightarrow> connected_have_handles (snd (is_connected ident gi))"
  using set_map_put [of ident False "m_player_status gi"]
  by (cases "map_of (m_player_status gi) ident")
     (auto simp: is_connected_def map_index_def connected_have_handles_def)

lemma broadcast_loop_result:
  "snd (broadcast_loop cs frame gi)
     = map (\<lambda>kv. Send (snd kv) frame) (filter (\<lambda>kv. marked_connected gi (fst kv)) cs)
   \<and> m_player_connections (fst (broadcast_loop cs frame gi)) = m_player_connections gi
   \<and> m_game (fst (broadcast_loop cs frame gi)) = m_game gi
   \<and> (\<forall>p. marked_connected (fst (broadcast_loop cs frame gi)) p = marked_connected gi p)
   \<and> (connected_have_handles gi \<longrightarrow> connected_have_handles (fst (broadcast_loop cs frame gi)))"
proof (induction cs arbitrary: gi)
  case Nil
  show ?case by simp
next
  case (Cons c cs)
  obtain ident hdl where c: "c = (ident, hdl)" by (cases c)
  let ?g1 = "snd (is_connected ident gi)"
  have step: "broadcast_loop (c # cs) frame gi
      = (fst (broadcast_loop cs frame ?g1),
         (if marked_connected gi ident then [Send hdl frame] else []) @ snd (broadcast_loop cs frame ?g1))"
    by (simp add: c split_beta is_connected_result(1))
  note ih = Cons.IH [of ?g1]
  show ?case
    unfolding step using ih is_connected_handles [of gi ident]
    by (simp add: c is_connected_result)
qed

lemma get_connection_present:
  assumes "map_of (m_player_connections gi) ident = Some h"
  shows "get_connection ident gi = (h, gi)"
  using assms by (simp add: get_connection_def map_index_def)

lemma broadcast_result:
  "snd (broadcast frame gi)
     = map (\<lambda>kv. Send (snd kv) frame)
         (filter (\<lambda>kv. marked_connected gi (fst kv)) (m_player_connections gi))"
  "m_player_connections (fst (broadcast frame gi)) = m_player_connections gi"
  "m_game (fst (broadcast frame gi)) = m_game gi"
  "marked_connected (fst (broadcast frame gi)) p = marked_connected gi p"
  "connected_have_handles gi \<Longrightarrow> connected_have_handles (fst (broadcast frame gi))"
  using broadcast_loop_result [of "m_player_connections gi" frame gi]
  by (simp_all add: broadcast_def)

lemma send_marked:
  assumes "connected_have_handles gi" "marked_connected gi ident"
  shows "\<exists>h. map_of (m_player_connections gi) ident = Some h
           \<and> send ident frame gi = (True, snd (is_connected ident gi), [Send h frame])"
proof -
  let ?g1 = "snd (is_connected ident gi)"
  from marked_has_handle [OF assms] obtain h
    where h0: "map_of (m_player_connections gi) ident = Some h" by blast
  then have "map_of (m_player_connections ?g1) ident = Some h"
    by (simp add: is_connected_result)
  from get_connection_present [OF this] assms(2)
  have "send ident frame gi = (True, ?g1, [Send h frame])"
    by (simp add: send_def split_beta is_connected_result(1))
  with h0 show ?thesis by blast
qed

lemma send_unmarked:
  assumes "\<not> marked_connected gi ident"
  shows "send ident frame gi = (False, snd (is_connected ident gi), [])"
  using assms by (simp add: send_def split_beta is_connected_result(1))

lemma send_result:
  assumes "connected_have_handles gi"
  shows "snd (snd (send ident frame gi))
           = (if marked_connected gi ident
              then [Send (case map_of (m_player_connections gi) ident of
                            None \<Rightarrow> empty_hdl | Some h \<Rightarrow> h) frame]
              else [])
       \<and> m_player_connections (fst (snd (send ident frame gi))) = m_player_connections gi
       \<and> m_game (fst (snd (send ident frame gi))) = m_game gi
       \<and> (\<forall>p. marked_connected (fst (snd (send ident frame gi))) p = marked_connected gi p)
       \<and> connected_have_handles (fst (snd (send ident frame gi)))
       \<and> fst (send ident frame gi) = marked_connected gi ident"
proof (cases "marked_connected gi ident")
  case True
  from send_marked [OF assms True, of frame] obtain h
    where "map_of (m_player_connections gi) ident = Some h"
      "send ident frame gi = (True, snd (is_connected ident gi), [Send h frame])" by blast
  with True is_connected_handles [OF assms, of ident] show ?thesis
    by (simp add: is_connected_result)
next
  case False
  with send_unmarked [OF False, of frame] is_connected_handles [OF assms, of ident] show ?thesis
    by (simp add: is_connected_result)
qed

lemma wiring_m_game_update:
  "marked_connected (gi\<lparr>m_game := g\<rparr>) p = marked_connected gi p"
  "connected_have_handles (gi\<lparr>m_game := g\<rparr>) = connected_have_handles gi"
  by (simp_all add: marked_connected_def connected_have_handles_def)

lemma send_one_result:
  assumes "connected_have_handles gi"
  shows "snd (send_one M gi) = deliver gi (gm_get_message M (m_game gi))
       \<and> m_player_connections (fst (send_one M gi)) = m_player_connections gi
       \<and> m_game (fst (send_one M gi)) = gm_pop_message M (m_game gi)
       \<and> (\<forall>p. marked_connected (fst (send_one M gi)) p = marked_connected gi p)
       \<and> connected_have_handles (fst (send_one M gi))"
proof (cases "msg_broadcast (gm_get_message M (m_game gi))")
  case True
  let ?m = "gm_get_message M (m_game gi)"
  let ?b = "broadcast (msg_text ?m) gi"
  from True have s: "send_one M gi = ((fst ?b)\<lparr>m_game := gm_pop_message M (m_game gi)\<rparr>, snd ?b)"
    by (simp add: send_one_def Let_def split_beta broadcast_result(3))
  have inv: "connected_have_handles (fst ?b)" using assms by (rule broadcast_result(5))
  show ?thesis
    using True inv broadcast_result(1,2,4) [of "msg_text ?m" gi]
    by (simp add: s deliver_def wiring_m_game_update)
next
  case False
  let ?m = "gm_get_message M (m_game gi)"
  let ?r = "send (msg_id ?m) (msg_text ?m) gi"
  note sr = send_result [OF assms, of "msg_id ?m" "msg_text ?m"]
  from False have s: "send_one M gi = ((fst (snd ?r))\<lparr>m_game := gm_pop_message M (m_game gi)\<rparr>,
                                       snd (snd ?r))"
    using sr by (simp add: send_one_def Let_def split_beta)
  show ?thesis
    using False sr
    by (simp add: s deliver_def wiring_m_game_update)
qed

lemma deliver_same_wiring:
  assumes "m_player_connections gi' = m_player_connections gi"
    "\<And>p. marked_connected gi' p = marked_connected gi p"
  shows "deliver gi' msg = deliver gi msg"
  using assms by (simp add: deliver_def)

lemma send_loop_delivers:
  assumes qv: "queue_view M q" and inv: "connected_have_handles gi" and msgs: "q (m_game gi) = msgs"
  shows "\<exists>gi'. send_loop M gi out = Some (gi', out @ concat (map (deliver gi) msgs))
           \<and> q (m_game gi') = []
           \<and> m_player_connections gi' = m_player_connections gi
           \<and> (\<forall>p. marked_connected gi' p = marked_connected gi p)
           \<and> connected_have_handles gi'"
  using inv msgs
proof (induction msgs arbitrary: gi out)
  case Nil
  with qv have "\<not> gm_has_message M (m_game gi)" by (simp add: queue_view_def)
  then have "send_loop M gi out = Some (gi, out)" by (subst send_loop.simps) simp
  with Nil show ?case by simp
next
  case (Cons m rest)
  let ?g1 = "fst (send_one M gi)"
  from qv Cons.prems(2) have has: "gm_has_message M (m_game gi)"
    and get: "gm_get_message M (m_game gi) = m"
    and pop: "q (gm_pop_message M (m_game gi)) = rest"
    by (simp_all add: queue_view_def)
  from send_one_result [OF Cons.prems(1), of M]
  have so: "snd (send_one M gi) = deliver gi (gm_get_message M (m_game gi))"
      "m_player_connections ?g1 = m_player_connections gi"
      "m_game ?g1 = gm_pop_message M (m_game gi)"
      "\<And>p. marked_connected ?g1 p = marked_connected gi p"
      "connected_have_handles ?g1"
    by simp_all
  have q1: "q (m_game ?g1) = rest" using so(3) pop by simp
  from Cons.IH [OF so(5) q1, of "out @ deliver gi m"] obtain gi'
    where r: "send_loop M ?g1 (out @ deliver gi m)
                = Some (gi', (out @ deliver gi m) @ concat (map (deliver ?g1) rest))"
      and fin: "q (m_game gi') = []" "m_player_connections gi' = m_player_connections ?g1"
        "\<forall>p. marked_connected gi' p = marked_connected ?g1 p" "connected_have_handles gi'"
    by blast
  have same: "deliver ?g1 = deliver gi"
    by (rule ext) (rule deliver_same_wiring [OF so(2) so(4)])
  have "send_loop M gi out = send_loop M ?g1 (out @ deliver gi m)"
    using has so(1) get by (subst send_loop.simps) simp
  with r same fin so(2) so(4) show ?case by simp
qed

lemma new_game_instance_handles: "connected_have_handles (new_game_instance data)"
  by (simp add: connected_have_handles_def new_game_instance_def)

lemma connect_handles:
  assumes "connected_have_handles gi"
  shows "connected_have_handles (fst (connect M ident hdl gi))"
proof -
  have st: "set (map_put ident True (m_player_status gi)) \<subseteq> insert (ident, True) (set (m_player_status gi))"
    by (rule set_map_put)
  show ?thesis
  proof (cases "marked_connected gi ident")
    case True
    with assms show ?thesis
      by (auto simp: connect_when_marked connected_have_handles_def map_of_map_put)
  next
    case False
    with assms st show ?thesis
      by (auto simp: connect_when_unmarked connected_have_handles_def map_of_map_put)
  qed
qed

lemma disconnect_handles:
  assumes "connected_have_handles gi"
  shows "connected_have_handles (fst (disconnect M ident gi))"
  using assms set_map_put [of ident False "m_player_status gi"]
  by (auto simp: disconnect_def connected_have_handles_def)

lemma get_connection_handles:
  assumes "connected_have_handles gi"
  shows "connected_have_handles (snd (get_connection ident gi))"
  using assms
  by (cases "map_of (m_player_connections gi) ident")
     (auto simp: get_connection_def map_index_def connected_have_handles_def map_of_map_put)

text \<open>
  Claim C6.  For a module whose output queue is \<open>q\<close>, and an instance that has a handle for
  every player it marks connected, the drain returns, leaves the queue empty, leaves the
  handles and the connected marks as they were, and puts on the wire, message after
  message, exactly \<open>deliver\<close>: a broadcast is sent to the handles recorded for the players
  marked connected and to no other, a targeted message to the handle of its target when the
  target is marked connected and to nobody when it is not.
\<close>

theorem send_messages_delivery:
  assumes "queue_view M q" and "connected_have_handles gi"
  shows "(\<exists>gi'. send_messages M gi
                  = Some (gi', Log Log_trace ''sending queued messages''
                                 # concat (map (deliver gi) (q (m_game gi))))
              \<and> q (m_game gi') = []
              \<and> m_player_connections gi' = m_player_connections gi
              \<and> (\<forall>p. marked_connected gi' p = marked_connected gi p))
       \<and> (\<forall>m. msg_broadcast m
              \<longrightarrow> (\<forall>h t. Send h t \<in> set (deliver gi m)
                           \<longleftrightarrow> t = msg_text m
                               \<and> (\<exists>p. (p, h) \<in> set (m_player_connections gi) \<and> marked_connected gi p))
                \<and> (\<forall>e \<in> set (deliver gi m). \<exists>h. e = Send h (msg_text m)))
       \<and> (\<forall>m. \<not> msg_broadcast m
              \<longrightarrow> deliver gi m
                    = (if marked_connected gi (msg_id m)
                       then [Send (the (map_of (m_player_connections gi) (msg_id m))) (msg_text m)]
                       else []))"
proof (intro conjI allI impI)
  from send_loop_delivers [OF assms refl, of "[Log Log_trace ''sending queued messages'']"]
  show "\<exists>gi'. send_messages M gi
                  = Some (gi', Log Log_trace ''sending queued messages''
                                 # concat (map (deliver gi) (q (m_game gi))))
              \<and> q (m_game gi') = []
              \<and> m_player_connections gi' = m_player_connections gi
              \<and> (\<forall>p. marked_connected gi' p = marked_connected gi p)"
    unfolding send_messages_def by auto
next
  fix m :: game_message and h t assume "msg_broadcast m"
  then show "Send h t \<in> set (deliver gi m)
               \<longleftrightarrow> t = msg_text m
                   \<and> (\<exists>p. (p, h) \<in> set (m_player_connections gi) \<and> marked_connected gi p)"
    by (force simp: deliver_def image_iff)
next
  fix m :: game_message assume "msg_broadcast m"
  then show "\<forall>e \<in> set (deliver gi m). \<exists>h. e = Send h (msg_text m)"
    by (auto simp: deliver_def)
next
  fix m :: game_message assume nb: "\<not> msg_broadcast m"
  show "deliver gi m
          = (if marked_connected gi (msg_id m)
             then [Send (the (map_of (m_player_connections gi) (msg_id m))) (msg_text m)]
             else [])"
  proof (cases "marked_connected gi (msg_id m)")
    case True
    from marked_has_handle [OF assms(2) True] nb True show ?thesis
      by (auto simp: deliver_def)
  next
    case False
    with nb show ?thesis by (simp add: deliver_def)
  qed
qed

lemma demo_queue_view: "queue_view demo_module dg_queue"
  unfolding queue_view_def
proof (intro allI conjI impI)
  fix g :: demo_game
  show "gm_has_message demo_module g = (dg_queue g \<noteq> [])" by (simp add: demo_module_def)
  assume "dg_queue g \<noteq> []"
  then show "gm_get_message demo_module g = hd (dg_queue g)"
    by (cases "dg_queue g") (simp_all add: demo_module_def)
  show "dg_queue (gm_pop_message demo_module g) = tl (dg_queue g)" by (simp add: demo_module_def)
qed

theorem send_messages_delivery_witness:
  "queue_view demo_module dg_queue \<and> connected_have_handles demo_room
   \<and> (\<exists>gi'. send_messages demo_module demo_room
               = Some (gi', [Log Log_trace ''sending queued messages'',
                             Send 7 ''state'', Send 7 ''move'']))"
proof -
  have inv: "connected_have_handles demo_room" by code_simp
  have ev: "concat (map (deliver demo_room) (dg_queue (m_game demo_room)))
              = [Send 7 ''state'', Send 7 ''move'']"
    by code_simp
  from send_messages_delivery [OF demo_queue_view inv]
  have "\<exists>gi'. send_messages demo_module demo_room
               = Some (gi', Log Log_trace ''sending queued messages''
                              # concat (map (deliver demo_room) (dg_queue (m_game demo_room))))"
    by blast
  with demo_queue_view inv show ?thesis unfolding ev by blast
qed

lemma get_connection_result:
  "m_player_status (snd (get_connection ident gi)) = m_player_status gi"
  "m_game (snd (get_connection ident gi)) = m_game gi"
  "fst (get_connection ident gi)
     = (case map_of (m_player_connections gi) ident of None \<Rightarrow> empty_hdl | Some h \<Rightarrow> h)"
  by (cases "map_of (m_player_connections gi) ident";
      simp add: get_connection_def map_index_def)+

lemma send_game: "m_game (fst (snd (send ident frame gi))) = m_game gi"
  by (simp add: send_def split_beta is_connected_result get_connection_result)

lemma send_one_game: "m_game (fst (send_one M gi)) = gm_pop_message M (m_game gi)"
  by (simp add: send_one_def Let_def split_beta send_game broadcast_result(3))

lemma send_loop_returns:
  assumes "queue_view M q" "q (m_game gi) = msgs"
  shows "\<exists>r. send_loop M gi out = Some r"
  using assms(2)
proof (induction msgs arbitrary: gi out)
  case Nil
  with assms(1) have "\<not> gm_has_message M (m_game gi)" by (simp add: queue_view_def)
  then show ?case by (subst send_loop.simps) simp
next
  case (Cons m rest)
  from assms(1) Cons.prems have has: "gm_has_message M (m_game gi)"
    and pop: "q (gm_pop_message M (m_game gi)) = rest"
    by (simp_all add: queue_view_def)
  from pop have "q (m_game (fst (send_one M gi))) = rest" by (simp add: send_one_game)
  from Cons.IH [OF this, of "out @ snd (send_one M gi)"] has show ?case
    by (subst send_loop.simps) simp
qed

lemma send_messages_returns:
  "queue_view M q \<Longrightarrow> \<exists>r. send_messages M gi = Some r"
  unfolding send_messages_def by (rule send_loop_returns [OF _ refl])

lemma send_loop_handles:
  assumes "send_loop M gi out = Some r"
  shows "connected_have_handles gi \<longrightarrow> connected_have_handles (fst r)"
proof (rule send_loop.raw_induct
    [where P = "\<lambda>M gi out r. connected_have_handles gi \<longrightarrow> connected_have_handles (fst r)",
     OF _ assms])
  fix f M gi out r
  assume ih: "\<And>gi out b y. f gi out b = Some y
                 \<Longrightarrow> connected_have_handles out \<longrightarrow> connected_have_handles (fst y)"
    and step: "(if gm_has_message M (m_game gi)
                then f M (fst (send_one M gi)) (out @ snd (send_one M gi))
                else Some (gi, out)) = Some r"
  show "connected_have_handles gi \<longrightarrow> connected_have_handles (fst r)"
  proof (cases "gm_has_message M (m_game gi)")
    case True
    with step ih [of M "fst (send_one M gi)" "out @ snd (send_one M gi)" r]
      send_one_result [of gi M]
    show ?thesis by simp
  next
    case False
    with step show ?thesis by auto
  qed
qed

lemma game_instance_handles:
  assumes "connected_have_handles gi"
  shows "connected_have_handles (fst (connect M ident hdl gi))"
    and "connected_have_handles (fst (disconnect M ident gi))"
    and "connected_have_handles (snd (is_connected ident gi))"
    and "connected_have_handles (snd (get_connection ident gi))"
    and "process_player_update T ident frame gi = Some (gi', evs) \<Longrightarrow> connected_have_handles gi'"
    and "game_update M delta gi = Some (b, gi', evs) \<Longrightarrow> connected_have_handles gi'"
proof -
  show "connected_have_handles (fst (connect M ident hdl gi))" using assms by (rule connect_handles)
  show "connected_have_handles (fst (disconnect M ident gi))" using assms by (rule disconnect_handles)
  show "connected_have_handles (snd (is_connected ident gi))" using assms by (rule is_connected_handles)
  show "connected_have_handles (snd (get_connection ident gi))"
    using assms by (rule get_connection_handles)
  show "connected_have_handles gi'" if "process_player_update T ident frame gi = Some (gi', evs)"
  proof (cases "json_parse T frame")
    case None
    with that assms show ?thesis by (simp add: process_player_update_def)
  next
    case (Some j)
    let ?g = "gi\<lparr>m_game := gm_player_update (game_data T) ident j (m_game gi)\<rparr>"
    from that Some obtain evs' where "send_messages (game_data T) ?g = Some (gi', evs')"
      by (auto simp: process_player_update_def)
    from send_loop_handles [OF this [unfolded send_messages_def]] assms show ?thesis
      by (simp add: wiring_m_game_update)
  qed
  show "connected_have_handles gi'" if "game_update M delta gi = Some (b, gi', evs)"
  proof -
    let ?g = "gi\<lparr>m_game := gm_game_update M delta (m_game gi)\<rparr>"
    from that obtain evs' where "send_messages M ?g = Some (gi', evs')"
      by (auto simp: game_update_def)
    from send_loop_handles [OF this [unfolded send_messages_def]] assms show ?thesis
      by (simp add: wiring_m_game_update)
  qed
qed

section \<open>Handling a player's frame\<close>

lemma send_loop_game:
  assumes "queue_view M q" "q (m_game gi) = msgs" "send_loop M gi out = Some r"
  shows "m_game (fst r) = (gm_pop_message M ^^ length msgs) (m_game gi)"
  using assms(2,3)
proof (induction msgs arbitrary: gi out)
  case Nil
  with assms(1) have "\<not> gm_has_message M (m_game gi)" by (simp add: queue_view_def)
  then have "send_loop M gi out = Some (gi, out)" by (subst send_loop.simps) simp
  with Nil have "r = (gi, out)" by simp
  with Nil show ?case by simp
next
  case (Cons m rest)
  let ?g1 = "fst (send_one M gi)"
  from assms(1) Cons.prems(1) have has: "gm_has_message M (m_game gi)"
    and pop: "q (gm_pop_message M (m_game gi)) = rest"
    by (simp_all add: queue_view_def)
  from pop have q1: "q (m_game ?g1) = rest" by (simp add: send_one_game)
  have "send_loop M gi out = send_loop M ?g1 (out @ snd (send_one M gi))"
    using has by (subst send_loop.simps) simp
  with Cons.prems(2) have "send_loop M ?g1 (out @ snd (send_one M gi)) = Some r" by simp
  from Cons.IH [OF q1 this] show ?case by (simp add: send_one_game funpow_swap1)
qed

lemma deliver_m_game_update: "deliver (gi\<lparr>m_game := g\<rparr>) = deliver gi"
  by (rule ext) (simp add: deliver_def wiring_m_game_update)

lemma process_player_update_frames:
  assumes parse: "json_parse T frame = Some j"
    and qv: "queue_view (game_data T) q" and inv: "connected_have_handles gi"
  shows "\<exists>gi'. process_player_update T ident frame gi
             = Some (gi', Log Log_trace ''player_update called for player {}''
                            # Log Log_trace ''sending queued messages''
                            # concat (map (deliver gi)
                                (q (gm_player_update (game_data T) ident j (m_game gi)))))
           \<and> m_game gi' = (gm_pop_message (game_data T)
                              ^^ length (q (gm_player_update (game_data T) ident j (m_game gi))))
                             (gm_player_update (game_data T) ident j (m_game gi))
           \<and> q (m_game gi') = []
           \<and> m_player_connections gi' = m_player_connections gi
           \<and> (\<forall>p. marked_connected gi' p = marked_connected gi p)"
proof -
  let ?M = "game_data T"
  let ?g = "gi\<lparr>m_game := gm_player_update ?M ident j (m_game gi)\<rparr>"
  have inv': "connected_have_handles ?g" using inv by (simp add: wiring_m_game_update)
  from send_loop_delivers [OF qv inv' refl, of "[Log Log_trace ''sending queued messages'']"]
  obtain gi' where r: "send_loop ?M ?g [Log Log_trace ''sending queued messages'']
        = Some (gi', [Log Log_trace ''sending queued messages'']
                       @ concat (map (deliver ?g) (q (m_game ?g))))"
    and fin: "q (m_game gi') = []" "m_player_connections gi' = m_player_connections ?g"
      "\<forall>p. marked_connected gi' p = marked_connected ?g p"
    by blast
  from send_loop_game [OF qv refl r]
  have g: "m_game gi' = (gm_pop_message ?M ^^ length (q (m_game ?g))) (m_game ?g)" by simp
  have "process_player_update T ident frame gi
          = Some (gi', Log Log_trace ''player_update called for player {}''
                         # Log Log_trace ''sending queued messages''
                         # concat (map (deliver gi) (q (gm_player_update ?M ident j (m_game gi)))))"
    using parse r by (simp add: process_player_update_def send_messages_def deliver_m_game_update)
  with g fin show ?thesis by (simp add: wiring_m_game_update)
qed

text \<open>
  Claim C5.  \<open>process_player_update (id, text)\<close> parses the text first.  When parsing fails
  it returns with the game instance (module state and its queue included) as it was and two
  log lines, the second at debug level, and no frame.  When parsing gives a JSON value it
  calls \<open>module.player_update (id, json)\<close> and drains: the result is that of
  \<open>send_messages\<close> on the updated module, and when the call returns the module has no
  message left.  For a module whose output queue is the list \<open>q\<close> the call returns; and on
  an instance that has a handle for every player it marks connected it puts on the wire,
  after its two log lines, exactly the frames \<open>deliver\<close> gives for the messages the updated
  module holds, in their order, pops each of them and nothing else from the module, and
  leaves the handles and the connected marks as they were.
\<close>

theorem process_player_update_parse:
  "(json_parse T text = None
      \<longrightarrow> process_player_update T ident text gi
            = Some (gi, [Log Log_trace ''player_update called for player {}'',
                         Log Log_debug ''update message from {} was not valid json'']))
   \<and> (\<forall>j. json_parse T text = Some j
      \<longrightarrow> process_player_update T ident text gi
            = map_option (\<lambda>(gi', evs). (gi', Log Log_trace ''player_update called for player {}'' # evs))
                (send_messages (game_data T)
                   (gi\<lparr>m_game := gm_player_update (game_data T) ident j (m_game gi)\<rparr>))
        \<and> (\<forall>gi' evs. process_player_update T ident text gi = Some (gi', evs)
              \<longrightarrow> \<not> gm_has_message (game_data T) (m_game gi'))
        \<and> (\<forall>q. queue_view (game_data T) q \<and> connected_have_handles gi
              \<longrightarrow> (\<exists>gi'. process_player_update T ident text gi
                           = Some (gi', Log Log_trace ''player_update called for player {}''
                                          # Log Log_trace ''sending queued messages''
                                          # concat (map (deliver gi)
                                              (q (gm_player_update (game_data T) ident j (m_game gi)))))
                       \<and> m_game gi'
                           = (gm_pop_message (game_data T)
                                ^^ length (q (gm_player_update (game_data T) ident j (m_game gi))))
                               (gm_player_update (game_data T) ident j (m_game gi))
                       \<and> q (m_game gi') = []
                       \<and> m_player_connections gi' = m_player_connections gi
                       \<and> (\<forall>p. marked_connected gi' p = marked_connected gi p))))
   \<and> (\<forall>q. queue_view (game_data T) q
      \<longrightarrow> (\<exists>r. process_player_update T ident text gi = Some r))"
proof (intro conjI allI impI)
  fix q assume q: "queue_view (game_data T) q"
  show "\<exists>r. process_player_update T ident text gi = Some r"
  proof (cases "json_parse T text")
    case None
    then show ?thesis by (simp add: process_player_update_def)
  next
    case (Some j)
    from send_messages_returns [OF q,
        of "gi\<lparr>m_game := gm_player_update (game_data T) ident j (m_game gi)\<rparr>"] Some
    show ?thesis by (auto simp: process_player_update_def)
  qed
next
  fix j gi' evs
  assume j: "json_parse T text = Some j" and r: "process_player_update T ident text gi = Some (gi', evs)"
  then obtain evs' where "send_messages (game_data T)
      (gi\<lparr>m_game := gm_player_update (game_data T) ident j (m_game gi)\<rparr>) = Some (gi', evs')"
    by (auto simp: process_player_update_def)
  then show "\<not> gm_has_message (game_data T) (m_game gi')" by (rule send_messages_drained)
next
  fix j q
  assume j: "json_parse T text = Some j"
    and q: "queue_view (game_data T) q \<and> connected_have_handles gi"
  from q have qv: "queue_view (game_data T) q" and inv: "connected_have_handles gi" by simp_all
  show "\<exists>gi'. process_player_update T ident text gi
                 = Some (gi', Log Log_trace ''player_update called for player {}''
                                # Log Log_trace ''sending queued messages''
                                # concat (map (deliver gi)
                                    (q (gm_player_update (game_data T) ident j (m_game gi)))))
             \<and> m_game gi'
                 = (gm_pop_message (game_data T)
                      ^^ length (q (gm_player_update (game_data T) ident j (m_game gi))))
                     (gm_player_update (game_data T) ident j (m_game gi))
             \<and> q (m_game gi') = []
             \<and> m_player_connections gi' = m_player_connections gi
             \<and> (\<forall>p. marked_connected gi' p = marked_connected gi p)"
    by (rule process_player_update_frames [OF j qv inv])
qed (simp_all add: process_player_update_def)

lemma demo_instance_frames:
  "concat (map (deliver demo_instance)
     (dg_queue (gm_player_update (game_data demo_traits) 1 (JObj [(''move'', JArr [JNum 0, JNum 0])])
        (m_game demo_instance))))
     = [Send 7 ''state'', Send 7 ''move'']"
  by code_simp

theorem process_player_update_parse_witness:
  "json_parse demo_traits ''xx'' = None
   \<and> process_player_update demo_traits 1 ''xx'' demo_instance
       = Some (demo_instance, [Log Log_trace ''player_update called for player {}'',
                               Log Log_debug ''update message from {} was not valid json''])
   \<and> json_parse demo_traits ''{\"move\":[0,0]}'' = Some (JObj [(''move'', JArr [JNum 0, JNum 0])])
   \<and> queue_view (game_data demo_traits) dg_queue
   \<and> connected_have_handles demo_instance
   \<and> (\<exists>gi'. process_player_update demo_traits 1 ''{\"move\":[0,0]}'' demo_instance
               = Some (gi', [Log Log_trace ''player_update called for player {}'',
                             Log Log_trace ''sending queued messages'',
                             Send 7 ''state'', Send 7 ''move''])
           \<and> dg_queue (m_game gi') = []
           \<and> \<not> gm_has_message (game_data demo_traits) (m_game gi')
           \<and> m_player_connections gi' = [(1, 7)]
           \<and> marked_connected gi' 1)"
proof -
  have qv: "queue_view (game_data demo_traits) dg_queue"
    using demo_queue_view by (simp add: demo_traits_def)
  have inv: "connected_have_handles demo_instance" by code_simp
  have p1: "json_parse demo_traits ''xx'' = None"
    by (simp add: demo_traits_def demo_parse_def)
  have p2: "json_parse demo_traits ''{\"move\":[0,0]}'' = Some (JObj [(''move'', JArr [JNum 0, JNum 0])])"
    by (simp add: demo_traits_def demo_parse_def)
  have c: "m_player_connections demo_instance = [(1, 7)]" by code_simp
  have m: "marked_connected demo_instance 1" by code_simp
  note A = process_player_update_parse [of demo_traits "''xx''" 1 demo_instance]
  note B = process_player_update_parse [of demo_traits "''{\"move\":[0,0]}''" 1 demo_instance]
  have 1: "process_player_update demo_traits 1 ''xx'' demo_instance
       = Some (demo_instance, [Log Log_trace ''player_update called for player {}'',
                               Log Log_debug ''update message from {} was not valid json''])"
    by (rule A [THEN conjunct1, rule_format, OF p1])
  note B2 = B [THEN conjunct2, THEN conjunct1, rule_format, OF p2]
  note B3 = B2 [THEN conjunct2, THEN conjunct2, rule_format, OF conjI [OF qv inv]]
  from B3 obtain gi' where
    r: "process_player_update demo_traits 1 ''{\"move\":[0,0]}'' demo_instance
          = Some (gi', Log Log_trace ''player_update called for player {}''
                         # Log Log_trace ''sending queued messages''
                         # concat (map (deliver demo_instance)
                             (dg_queue (gm_player_update (game_data demo_traits) 1
                                (JObj [(''move'', JArr [JNum 0, JNum 0])]) (m_game demo_instance)))))"
    and e: "dg_queue (m_game gi') = []"
    and k: "m_player_connections gi' = m_player_connections demo_instance"
      "\<forall>p. marked_connected gi' p = marked_connected demo_instance p"
    by blast
  have d: "\<not> gm_has_message (game_data demo_traits) (m_game gi')"
    by (rule B2 [THEN conjunct2, THEN conjunct1, rule_format, OF r])
  from r have r': "process_player_update demo_traits 1 ''{\"move\":[0,0]}'' demo_instance
          = Some (gi', [Log Log_trace ''player_update called for player {}'',
                        Log Log_trace ''sending queued messages'',
                        Send 7 ''state'', Send 7 ''move''])"
    unfolding demo_instance_frames by simp
  from r' e d k c m have "\<exists>gi'. process_player_update demo_traits 1 ''{\"move\":[0,0]}'' demo_instance
               = Some (gi', [Log Log_trace ''player_update called for player {}'',
                             Log Log_trace ''sending queued messages'',
                             Send 7 ''state'', Send 7 ''move''])
           \<and> dg_queue (m_game gi') = []
           \<and> \<not> gm_has_message (game_data demo_traits) (m_game gi')
           \<and> m_player_connections gi' = [(1, 7)]
           \<and> marked_connected gi' 1"
    by (intro exI [of _ gi'] conjI) simp_all
  with p1 1 p2 qv inv show ?thesis by (intro conjI)
qed

section \<open>The reverse index of the game store\<close>

lemma set_set_insert: "set (set_insert k xs) = insert k (set xs)"
  by (induction xs) auto

lemma map_of_map_erase: "map_of (map_erase k m) = (map_of m)(k := None)"
  by (induction m) (auto simp: map_erase_def fun_eq_iff)

lemma set_map_erase: "set (map_erase k m) \<subseteq> set m"
  by (auto simp: map_erase_def)

lemma set_fold_map_put:
  "set (fold (\<lambda>ident pg. map_put ident r pg) ids pg) \<subseteq> set pg \<union> (\<lambda>ident. (ident, r)) ` set ids"
proof (induction ids arbitrary: pg)
  case Nil
  show ?case by simp
next
  case (Cons i ids)
  have "set (fold (\<lambda>ident pg. map_put ident r pg) ids (map_put i r pg))
          \<subseteq> set (map_put i r pg) \<union> (\<lambda>ident. (ident, r)) ` set ids"
    by (rule Cons.IH)
  also have "\<dots> \<subseteq> insert (i, r) (set pg) \<union> (\<lambda>ident. (ident, r)) ` set ids"
    using set_map_put [of i r pg] by blast
  finally show ?case by auto
qed

lemma server_fields:
  "m_connection_ids (emit evs s) = m_connection_ids s"
  "m_player_games (emit evs s) = m_player_games s"
  "m_games (emit evs s) = m_games s"
  "heap (emit evs s) = heap s"
  "emitted (emit evs s) = emitted s @ evs"
  "m_connection_ids (store r gi s) = m_connection_ids s"
  "m_player_games (store r gi s) = m_player_games s"
  "m_games (store r gi s) = m_games s"
  "heap (store r gi s) = map_put r gi (heap s)"
  "emitted (store r gi s) = emitted s"
  "m_connection_ids (release r s) = m_connection_ids s"
  "m_player_games (release r s) = m_player_games s"
  "m_games (release r s) = m_games s"
  "heap (release r s) = heap s"
  "m_connection_ids (assign_game gs ident s) = m_connection_ids s"
  "m_player_games (assign_game gs ident s) = map_put ident gs (m_player_games s)"
  "m_games (assign_game gs ident s) = m_games s"
  "heap (assign_game gs ident s) = heap s"
  by (simp_all add: emit_def store_def release_def assign_game_def Let_def split: option.splits)

lemma fold_assign_game:
  "m_connection_ids (fold (assign_game gs) ids s) = m_connection_ids s
   \<and> m_player_games (fold (assign_game gs) ids s)
       = fold (\<lambda>ident pg. map_put ident gs pg) ids (m_player_games s)
   \<and> m_games (fold (assign_game gs) ids s) = m_games s
   \<and> heap (fold (assign_game gs) ids s) = heap s"
  by (induction ids arbitrary: s) (simp_all add: server_fields)

lemma player_connect_tables:
  assumes "player_connect T hdl data s = Inr s'"
  shows "(m_games s' = m_games s \<and> m_player_games s' = m_player_games s)
       \<or> (m_games s' = set_insert (fresh_ref (heap s)) (m_games s)
          \<and> m_player_games s'
              = fold (\<lambda>ident pg. map_put ident (fresh_ref (heap s)) pg)
                  (gm_get_player_list (game_data T) data) (m_player_games s))"
proof (cases "map_of (m_player_games s) (gm_get_creator_id (game_data T) data) = None")
  case True
  with assms show ?thesis
    by (auto simp: player_connect_def Let_def split_beta server_fields fold_assign_game
             split: sum.splits)
next
  case False
  with assms show ?thesis
    by (auto simp: player_connect_def Let_def split_beta server_fields
             split: sum.splits if_splits)
qed

lemma player_connect_index:
  assumes "index_in_games s" "player_connect T hdl data s = Inr s'"
  shows "index_in_games s'"
proof -
  from player_connect_tables [OF assms(2)] show ?thesis
  proof
    assume "m_games s' = m_games s \<and> m_player_games s' = m_player_games s"
    with assms(1) show ?thesis by (simp add: index_in_games_def)
  next
    let ?gs = "fresh_ref (heap s)"
    assume n: "m_games s' = set_insert ?gs (m_games s)
          \<and> m_player_games s'
              = fold (\<lambda>ident pg. map_put ident ?gs pg)
                  (gm_get_player_list (game_data T) data) (m_player_games s)"
    show ?thesis
      unfolding index_in_games_def
    proof
      fix kv assume "kv \<in> set (m_player_games s')"
      with n set_fold_map_put [of ?gs "gm_get_player_list (game_data T) data" "m_player_games s"]
      have "kv \<in> set (m_player_games s) \<or> snd kv = ?gs" by auto
      with assms(1) n show "snd kv \<in> set (m_games s')"
        by (auto simp: index_in_games_def set_set_insert)
    qed
  qed
qed

lemma index_in_games_cong:
  "m_games s' = m_games s \<Longrightarrow> m_player_games s' = m_player_games s
     \<Longrightarrow> index_in_games s' = index_in_games s"
  by (simp add: index_in_games_def)

lemma setup_player_index:
  assumes "index_in_games s" "setup_player T hdl token s = Inr s'"
  shows "index_in_games s'"
proof (cases "gm_is_valid (game_data T) (gm_make (game_data T) (fst (read_login T token)))")
  case False
  from setup_player_invalid [OF False, of hdl s] assms show ?thesis
    by (simp add: index_in_games_def server_fields)
next
  case True
  let ?d = "gm_make (game_data T) (fst (read_login T token))"
  let ?s2 = "emit [Log Log_debug ''assigning connection to id: {}'']
               ((emit (snd (read_login T token)) s)
                  \<lparr>m_connection_ids := map_put hdl (gm_get_creator_id (game_data T) ?d)
                                         (m_connection_ids (emit (snd (read_login T token)) s))\<rparr>)"
  from True assms(2) have pc: "player_connect T hdl ?d ?s2 = Inr s'"
    by (simp add: setup_player_def split_beta Let_def)
  have "index_in_games ?s2" using assms(1) by (simp add: index_in_games_def server_fields)
  then show ?thesis using pc by (rule player_connect_index)
qed

lemma player_disconnect_index:
  assumes "index_in_games s" "player_disconnect T hdl s = Inr s'"
  shows "index_in_games s'"
proof -
  from assms(2) obtain ident where
    "m_games s' = m_games s" "m_player_games s' = map_erase ident (m_player_games s)"
    by (auto simp: player_disconnect_def Let_def split_beta server_fields player_game_def
             split: sum.splits option.splits)
  with assms(1) set_map_erase [of ident "m_player_games s"] show ?thesis
    by (auto simp: index_in_games_def)
qed

lemma process_action_index:
  assumes "index_in_games s" "process_action T a s = Inr s'"
  shows "index_in_games s'"
proof (cases a)
  case (SUBSCRIBE hdl)
  with assms(2) have "s' = emit [Log Log_trace ''processing SUBSCRIBE action''] s" by simp
  with assms(1) show ?thesis by (simp add: index_in_games_def server_fields)
next
  case (UNSUBSCRIBE hdl)
  let ?s1 = "emit [Log Log_trace ''processing UNSUBSCRIBE action''] s"
  have i1: "index_in_games ?s1" using assms(1) by (simp add: index_in_games_def server_fields)
  show ?thesis
  proof (cases "map_of (m_connection_ids ?s1) hdl = None")
    case True
    with assms(2) UNSUBSCRIBE
    have "s' = emit [Log Log_debug ''player disconnected without providing id''] ?s1"
      by (simp add: Let_def)
    with assms(1) show ?thesis by (simp add: index_in_games_def server_fields)
  next
    case False
    with assms(2) UNSUBSCRIBE have "player_disconnect T hdl ?s1 = Inr s'" by (simp add: Let_def)
    with i1 show ?thesis by (rule player_disconnect_index)
  qed
next
  case (MESSAGE hdl payload)
  let ?s1 = "emit [Log Log_trace ''processing MESSAGE action''] s"
  show ?thesis
  proof (cases "map_of (m_connection_ids ?s1) hdl")
    case None
    let ?s2 = "emit [Log Log_debug ''recieved message from connection w/no id''] ?s1"
    have i2: "index_in_games ?s2" using assms(1) by (simp add: index_in_games_def server_fields)
    from None assms(2) MESSAGE have "setup_player T hdl payload ?s2 = Inr s'" by (simp add: Let_def)
    with i2 show ?thesis by (rule setup_player_index)
  next
    case (Some ident)
    with assms(2) MESSAGE have "m_games s' = m_games s \<and> m_player_games s' = m_player_games s"
      by (auto simp: Let_def server_fields split: option.splits)
    with assms(1) show ?thesis by (simp add: index_in_games_def)
  qed
qed

lemma update_loop_tables:
  "update_loop M delta rs s = Inr s'
     \<Longrightarrow> m_player_games s' = m_player_games s \<and> set (m_games s') \<subseteq> set (m_games s)"
proof (induction rs arbitrary: s)
  case Nil
  then show ?case by simp
next
  case (Cons r rs)
  from Cons.prems obtain game where game: "map_of (heap s) r = Some game"
    by (cases "map_of (heap s) r") simp_all
  from Cons.prems game obtain result game1 evs
    where upd: "game_update M delta game = Some (result, game1, evs)"
    by (cases "game_update M delta game") auto
  show ?case
  proof (cases result)
    case True
    with Cons.prems game upd
    have "update_loop M delta rs (emit evs (store r game1 s)) = Inr s'" by simp
    from Cons.IH [OF this] show ?thesis by (simp add: server_fields)
  next
    case False
    let ?s1 = "emit (evs @ [Log Log_debug ''game ended'']
                       @ snd (close_players (get_player_list M game1) game1)
                       @ [Log Log_trace ''erasing game from list''])
                 (store r (fst (close_players (get_player_list M game1) game1)) s)"
    from False Cons.prems game upd
    have "update_loop M delta rs (release r (?s1\<lparr>m_games := remove1 r (m_games ?s1)\<rparr>)) = Inr s'"
      by (simp add: Let_def split_beta)
    from Cons.IH [OF this] set_remove1_subset [of r "m_games s"] show ?thesis
      by (auto simp: server_fields)
  qed
qed

lemma update_games_tables:
  "update_games T delta s = Inr s'
     \<Longrightarrow> m_player_games s' = m_player_games s \<and> set (m_games s') \<subseteq> set (m_games s)"
  by (auto simp: update_games_def dest: update_loop_tables split: if_splits)

lemma ball_of_empty: "A = {} \<Longrightarrow> \<forall>x \<in> A. P x"
  by simp

lemma ball_notin_empty: "B = {} \<Longrightarrow> \<forall>x \<in> A. f x \<notin> B"
  by simp

text \<open>
  Claim C3, as the code has it.  The reverse index points into the set of games in the
  fresh server, and \<open>player_connect\<close>, \<open>player_disconnect\<close> and every action of the
  dispatcher keep it so.  A tick leaves the reverse index as it is and only erases games
  from the set; after a tick the property holds exactly when no entry of the reverse index
  refers to a game the tick erased.
\<close>

theorem index_in_games_kept:
  "index_in_games (new_game_server :: 'g game_server)
   \<and> (index_in_games s \<longrightarrow>
        (\<forall>s'. player_connect T hdl data s = Inr s' \<longrightarrow> index_in_games s')
      \<and> (\<forall>s'. player_disconnect T hdl s = Inr s' \<longrightarrow> index_in_games s')
      \<and> (\<forall>s'. process_action T a s = Inr s' \<longrightarrow> index_in_games s')
      \<and> (\<forall>s'. update_games T delta s = Inr s'
              \<longrightarrow> m_player_games s' = m_player_games s
                \<and> set (m_games s') \<subseteq> set (m_games s)
                \<and> (index_in_games s'
                     \<longleftrightarrow> (\<forall>kv \<in> set (m_player_games s).
                            snd kv \<notin> set (m_games s) - set (m_games s')))))"
proof (intro conjI impI allI)
  show "index_in_games (new_game_server :: 'g game_server)"
    by (simp add: index_in_games_def new_game_server_def)
next
  fix s' assume "index_in_games s" "player_connect T hdl data s = Inr s'"
  then show "index_in_games s'" by (rule player_connect_index)
next
  fix s' assume "index_in_games s" "player_disconnect T hdl s = Inr s'"
  then show "index_in_games s'" by (rule player_disconnect_index)
next
  fix s' assume "index_in_games s" "process_action T a s = Inr s'"
  then show "index_in_games s'" by (rule process_action_index)
next
  fix s' assume "update_games T delta s = Inr s'"
  then show "m_player_games s' = m_player_games s" by (simp add: update_games_tables)
next
  fix s' assume "update_games T delta s = Inr s'"
  then show "set (m_games s') \<subseteq> set (m_games s)" by (simp add: update_games_tables)
next
  fix s' assume inv: "index_in_games s" and u: "update_games T delta s = Inr s'"
  from update_games_tables [OF u] have pg: "m_player_games s' = m_player_games s" by simp
  from inv show "index_in_games s'
      \<longleftrightarrow> (\<forall>kv \<in> set (m_player_games s). snd kv \<notin> set (m_games s) - set (m_games s'))"
    unfolding index_in_games_def pg by auto
qed

theorem index_in_games_kept_witness:
  "index_in_games demo_both
   \<and> (\<exists>s'. player_disconnect demo_traits 1 demo_both = Inr s'
          \<and> m_player_games s' = [(2, 1)] \<and> m_games s' = [1] \<and> index_in_games s')
   \<and> (\<exists>s'. update_games demo_traits 1000 demo_both = Inr s'
          \<and> m_player_games s' = [(1, 1), (2, 1)] \<and> m_games s' = [1] \<and> index_in_games s')
   \<and> (\<exists>s s'. process_actions demo_traits [UNSUBSCRIBE 1, UNSUBSCRIBE 2] demo_both = Inr s
          \<and> index_in_games s \<and> m_player_games s = [] \<and> m_games s = [1]
          \<and> update_games demo_traits 500 s = Inr s'
          \<and> m_games s' = [] \<and> index_in_games s')"
proof -
  let ?d = "projr (player_disconnect demo_traits 1 demo_both)"
  let ?u = "projr (update_games demo_traits 1000 demo_both)"
  let ?e = "projr (process_actions demo_traits [UNSUBSCRIBE 1, UNSUBSCRIBE 2] demo_both)"
  let ?f = "projr (update_games demo_traits 500 ?e)"
  have inv: "index_in_games demo_both" by code_simp
  have d: "player_disconnect demo_traits 1 demo_both = Inr ?d" by code_simp
  have dv: "m_player_games ?d = [(2, 1)]" "m_games ?d = [1]" by code_simp+
  have u: "update_games demo_traits 1000 demo_both = Inr ?u" by code_simp
  have uv: "m_player_games ?u = [(1, 1), (2, 1)]" "m_games ?u = [1]"
    "m_player_games demo_both = [(1, 1), (2, 1)]" "m_games demo_both = [1]" by code_simp+
  have e: "process_actions demo_traits [UNSUBSCRIBE 1, UNSUBSCRIBE 2] demo_both = Inr ?e"
    by code_simp
  have ev: "index_in_games ?e" "m_player_games ?e = []" "m_games ?e = [1]" by code_simp+
  have f: "update_games demo_traits 500 ?e = Inr ?f" by code_simp
  have fv: "m_games ?f = []" by code_simp
  note A = index_in_games_kept [of demo_both demo_traits 1 "demo_make (demo_login 1)" "SUBSCRIBE 1" 1000,
      THEN conjunct2, rule_format, OF inv]
  note E = index_in_games_kept [of ?e demo_traits 1 "demo_make (demo_login 1)" "SUBSCRIBE 1" 500,
      THEN conjunct2, rule_format, OF ev(1)]
  have 1: "index_in_games ?d"
    by (rule A [THEN conjunct2, THEN conjunct1, rule_format, OF d])
  note U = A [THEN conjunct2, THEN conjunct2, THEN conjunct2, rule_format, OF u]
  have "set (m_games demo_both) - set (m_games ?u) = {}"
    unfolding uv(2,4) by (rule Diff_cancel)
  then have "\<forall>kv \<in> set (m_player_games demo_both).
      snd kv \<notin> set (m_games demo_both) - set (m_games ?u)" by (rule ball_notin_empty)
  then have 2: "index_in_games ?u"
    by (rule U [THEN conjunct2, THEN conjunct2, THEN iffD2])
  note F = E [THEN conjunct2, THEN conjunct2, THEN conjunct2, rule_format, OF f]
  have "set (m_player_games ?e) = {}" unfolding ev(2) by (rule list.set(1))
  then have "\<forall>kv \<in> set (m_player_games ?e).
      snd kv \<notin> set (m_games ?e) - set (m_games ?f)" by (rule ball_of_empty)
  then have 3: "index_in_games ?f"
    by (rule F [THEN conjunct2, THEN conjunct2, THEN iffD2])
  have a: "\<exists>s'. player_disconnect demo_traits 1 demo_both = Inr s'
          \<and> m_player_games s' = [(2, 1)] \<and> m_games s' = [1] \<and> index_in_games s'"
    using d dv 1 by (intro exI [of _ ?d] conjI)
  have b: "\<exists>s'. update_games demo_traits 1000 demo_both = Inr s'
          \<and> m_player_games s' = [(1, 1), (2, 1)] \<and> m_games s' = [1] \<and> index_in_games s'"
    using u uv(1,2) 2 by (intro exI [of _ ?u] conjI)
  have c: "\<exists>s s'. process_actions demo_traits [UNSUBSCRIBE 1, UNSUBSCRIBE 2] demo_both = Inr s
          \<and> index_in_games s \<and> m_player_games s = [] \<and> m_games s = [1]
          \<and> update_games demo_traits 500 s = Inr s'
          \<and> m_games s' = [] \<and> index_in_games s'"
    using e ev f fv 3 by (intro exI [of _ ?e] exI [of _ ?f] conjI)
  from inv a b c show ?thesis by (intro conjI)
qed

text \<open>
  Claim C3 fails after a tick that erases a game.  In \<open>demo_both\<close>, the server after the
  logins of the players 1 and 2, the reverse index points into the set of games.  The tick
  of 500 ms closes the handles 1 and 2, erases game 1 from \<open>m_games\<close> and leaves the entries
  of both players in \<open>m_player_games\<close>, which then refer to a game that is not in the set.
\<close>

theorem tick_leaves_dangling_index:
  "map_sum id forget_log
     (process_actions demo_traits [MESSAGE 1 ''alice'', MESSAGE 2 ''bob''] new_game_server)
     = Inr demo_both
   \<and> index_in_games demo_both
   \<and> map_sum id m_games (update_games demo_traits 500 demo_both) = Inr []
   \<and> map_sum id m_player_games (update_games demo_traits 500 demo_both) = Inr [(1, 1), (2, 1)]
   \<and> map_sum id emitted (update_games demo_traits 500 demo_both)
       = Inr [Log Log_trace ''update with timestep: {}'',
              Log Log_trace ''sending queued messages'',
              Send 1 ''state'', Send 2 ''state'',
              Log Log_debug ''game ended'', Close 1 ''game ended'', Close 2 ''game ended'',
              Log Log_trace ''erasing game from list'']
   \<and> map_sum id index_in_games (update_games demo_traits 500 demo_both) = Inr False"
  by code_simp

section \<open>A second login of a connected player\<close>

lemma is_connected_marked:
  assumes "marked_connected gi ident"
  shows "is_connected ident gi = (True, gi)"
  using assms by (simp add: is_connected_def map_index_def marked_connected_def)

lemma player_game_cong:
  "m_player_games s' = m_player_games s \<Longrightarrow> heap s' = heap s
     \<Longrightarrow> player_game s' ident = player_game s ident"
  by (simp add: player_game_def split: option.splits)

lemma player_connect_existing:
  assumes game: "player_game s (gm_get_creator_id (game_data T) data) = Inr (r, gi)"
    and conn: "marked_connected gi (gm_get_creator_id (game_data T) data)"
  shows "player_connect T hdl data s
           = Inr (emit [Log Log_trace ''connect called for player {}'']
                   (store r ((snd (get_connection (gm_get_creator_id (game_data T) data) gi))
                               \<lparr>m_player_connections :=
                                  map_put (gm_get_creator_id (game_data T) data) hdl
                                    (m_player_connections
                                       (snd (get_connection (gm_get_creator_id (game_data T) data) gi)))\<rparr>)
                      (emit [Close (fst (get_connection (gm_get_creator_id (game_data T) data) gi))
                               ''player connected again'',
                             Log Log_debug ''terminating redundant connection for player {}'']
                         (s\<lparr>m_connection_ids :=
                              map_erase (fst (get_connection (gm_get_creator_id (game_data T) data) gi))
                                (m_connection_ids s)\<rparr>))))"
proof -
  let ?P = "gm_get_creator_id (game_data T) data"
  let ?g2 = "snd (get_connection ?P gi)"
  from game have has: "map_of (m_player_games s) ?P = Some r"
    by (auto simp: player_game_def split: option.splits)
  have m2: "marked_connected ?g2 ?P"
    using conn by (simp add: marked_connected_def get_connection_result)
  show ?thesis
    using has game
    by (simp add: player_connect_def Let_def split_beta is_connected_marked [OF conn]
                  connect_when_marked [OF m2])
qed

text \<open>
  The eviction step of \<open>player_connect\<close>.  Player \<open>P\<close> has a game that marks it connected,
  with recorded handle \<open>old\<close>, and logs in on another handle \<open>hdl\<close>.  Then \<open>old\<close> leaves
  the session table and is closed with reason "player connected again", the game records
  \<open>hdl\<close> for \<open>P\<close>, and \<open>hdl\<close> is bound to \<open>P\<close>.  The step looks at the handle the game
  records and at no other: the handles bound to \<open>P\<close> afterwards are \<open>hdl\<close> and those bound to
  it before other than \<open>old\<close>.
\<close>

lemma eviction_step:
  assumes login: "read_login T token = (j, evs)"
      and valid: "gm_is_valid (game_data T) (gm_make (game_data T) j)"
      and P: "gm_get_creator_id (game_data T) (gm_make (game_data T) j) = P"
      and game: "player_game s P = Inr (r, gi)"
      and conn: "marked_connected gi P"
      and old: "fst (get_connection P gi) = old"
      and new: "hdl \<noteq> old"
  shows "\<exists>s'. setup_player T hdl token s = Inr s'
     \<and> emitted s' = emitted s @ evs
          @ [Log Log_debug ''assigning connection to id: {}'',
             Close old ''player connected again'',
             Log Log_debug ''terminating redundant connection for player {}'',
             Log Log_trace ''connect called for player {}'']
     \<and> map_of (m_connection_ids s') old = None
     \<and> map_of (m_connection_ids s') hdl = Some P
     \<and> (\<exists>gi'. player_game s' P = Inr (r, gi')
            \<and> map_of (m_player_connections gi') P = Some hdl \<and> marked_connected gi' P)
     \<and> (\<forall>h. map_of (m_connection_ids s') h = Some P
            \<longleftrightarrow> h = hdl \<or> (h \<noteq> old \<and> map_of (m_connection_ids s) h = Some P))
     \<and> ((\<forall>h. map_of (m_connection_ids s) h = Some P \<longrightarrow> h = old)
          \<longrightarrow> (\<forall>h. map_of (m_connection_ids s') h = Some P \<longleftrightarrow> h = hdl))"
proof -
  let ?d = "gm_make (game_data T) j"
  let ?s2 = "emit [Log Log_debug ''assigning connection to id: {}'']
               ((emit evs s)\<lparr>m_connection_ids := map_put hdl P (m_connection_ids (emit evs s))\<rparr>)"
  let ?g2 = "snd (get_connection P gi)"
  let ?g3 = "?g2\<lparr>m_player_connections := map_put P hdl (m_player_connections ?g2)\<rparr>"
  let ?s' = "emit [Log Log_trace ''connect called for player {}'']
               (store r ?g3
                  (emit [Close old ''player connected again'',
                         Log Log_debug ''terminating redundant connection for player {}'']
                     (?s2\<lparr>m_connection_ids := map_erase old (m_connection_ids ?s2)\<rparr>)))"
  have sp: "setup_player T hdl token s = player_connect T hdl ?d ?s2"
    using login valid P by (simp add: setup_player_def Let_def)
  have g2: "player_game ?s2 (gm_get_creator_id (game_data T) ?d) = Inr (r, gi)"
    using game P player_game_cong [of ?s2 s P] by (simp add: server_fields)
  have c2: "marked_connected gi (gm_get_creator_id (game_data T) ?d)" using conn P by simp
  have run: "setup_player T hdl token s = Inr ?s'"
    unfolding sp player_connect_existing [OF g2 c2] using P old by simp
  have ids: "map_of (m_connection_ids ?s') = ((map_of (m_connection_ids s))(hdl \<mapsto> P))(old := None)"
    by (simp add: server_fields map_of_map_erase map_of_map_put)
  from game have pr: "map_of (m_player_games s) P = Some r"
    by (auto simp: player_game_def split: option.splits)
  have pg: "player_game ?s' P = Inr (r, ?g3)"
    using pr by (simp add: player_game_def server_fields map_of_map_put)
  have m3: "marked_connected ?g3 P"
    using conn by (simp add: marked_connected_def get_connection_result)
  have 1: "emitted ?s' = emitted s @ evs
          @ [Log Log_debug ''assigning connection to id: {}'',
             Close old ''player connected again'',
             Log Log_debug ''terminating redundant connection for player {}'',
             Log Log_trace ''connect called for player {}'']"
    by (simp add: server_fields)
  have 2: "map_of (m_connection_ids ?s') old = None" by (simp add: ids)
  have 3: "map_of (m_connection_ids ?s') hdl = Some P" using new by (simp add: ids)
  have 4: "\<exists>gi'. player_game ?s' P = Inr (r, gi')
            \<and> map_of (m_player_connections gi') P = Some hdl \<and> marked_connected gi' P"
    using pg m3 by (simp add: map_of_map_put)
  have 5: "\<forall>h. map_of (m_connection_ids ?s') h = Some P
            \<longleftrightarrow> h = hdl \<or> (h \<noteq> old \<and> map_of (m_connection_ids s) h = Some P)"
    using new by (auto simp: ids)
  have 6: "(\<forall>h. map_of (m_connection_ids s) h = Some P \<longrightarrow> h = old)
          \<longrightarrow> (\<forall>h. map_of (m_connection_ids ?s') h = Some P \<longleftrightarrow> h = hdl)"
    using 5 by blast
  from run 1 2 3 4 5 6 show ?thesis by blast
qed

lemma eviction_step_demo_both:
  "read_login demo_traits ''bob'' = (demo_login 2, [])
   \<and> player_game demo_both 2 = Inr (1, the (map_of (heap demo_both) 1))
   \<and> marked_connected (the (map_of (heap demo_both) 1)) 2
   \<and> fst (get_connection 2 (the (map_of (heap demo_both) 1))) = 2
   \<and> (\<exists>s'. setup_player demo_traits 3 ''bob'' demo_both = Inr s'
          \<and> map_of (m_connection_ids s') 2 = None
          \<and> Close 2 ''player connected again'' \<in> set (emitted s')
          \<and> (\<forall>h. map_of (m_connection_ids s') h = Some 2 \<longleftrightarrow> h = 3))"
proof -
  let ?gi = "the (map_of (heap demo_both) 1)"
  have login: "read_login demo_traits ''bob'' = (demo_login 2, [])" by code_simp
  have valid: "gm_is_valid (game_data demo_traits) (gm_make (game_data demo_traits) (demo_login 2))"
    by code_simp
  have P: "gm_get_creator_id (game_data demo_traits) (gm_make (game_data demo_traits) (demo_login 2)) = 2"
    by code_simp
  have game: "player_game demo_both 2 = Inr (1, ?gi)" by code_simp
  have conn: "marked_connected ?gi 2" by code_simp
  have old: "fst (get_connection 2 ?gi) = 2" by code_simp
  have new: "(3::nat) \<noteq> 2" by simp
  have only: "\<forall>h. map_of (m_connection_ids demo_both) h = Some 2 \<longrightarrow> h = 2"
    by (simp add: demo_both_def)
  from eviction_step [OF login valid P game conn old new] only
  obtain s' where "setup_player demo_traits 3 ''bob'' demo_both = Inr s'"
    "emitted s' = emitted demo_both @ []
          @ [Log Log_debug ''assigning connection to id: {}'',
             Close 2 ''player connected again'',
             Log Log_debug ''terminating redundant connection for player {}'',
             Log Log_trace ''connect called for player {}'']"
    "map_of (m_connection_ids s') 2 = None"
    "\<forall>h. map_of (m_connection_ids s') h = Some 2 \<longleftrightarrow> h = 3"
    by blast
  then have "\<exists>s'. setup_player demo_traits 3 ''bob'' demo_both = Inr s'
          \<and> map_of (m_connection_ids s') 2 = None
          \<and> Close 2 ''player connected again'' \<in> set (emitted s')
          \<and> (\<forall>h. map_of (m_connection_ids s') h = Some 2 \<longleftrightarrow> h = 3)"
    by auto
  with login game conn old show ?thesis by blast
qed

text \<open>
  Claim C4 fails on the code in \<open>demo_two_games\<close>, a state the dispatcher reaches by five
  actions.  The second login of player 1 made a new game and pointed the reverse-index
  entry of player 2 at it, although handle 2 was bound to player 2 and recorded in the old
  game only.  The game of player 2 now marks it connected on handle 4.  A login of player 2
  on handle 5 evicts and closes handle 4 and nothing else: afterwards the handles 2 and 5
  are both bound to player 2.  When these two connections close, the first close erases the
  reverse-index entry of player 2 and the second follows a null pointer.
\<close>

theorem second_login_leaves_stale_entry:
  "map_sum id forget_log
     (process_actions demo_traits
        [MESSAGE 1 ''alice'', MESSAGE 2 ''bob'', UNSUBSCRIBE 1, MESSAGE 3 ''alice'', MESSAGE 4 ''bob'']
        new_game_server)
     = Inr demo_two_games
   \<and> player_game demo_two_games 2 = Inr (2, demo_second_game)
   \<and> is_connected 2 demo_second_game = (True, demo_second_game)
   \<and> get_connection 2 demo_second_game = (4, demo_second_game)
   \<and> map_of (m_connection_ids demo_two_games) 5 = None
   \<and> map_sum id m_connection_ids (process_action demo_traits (MESSAGE 5 ''bob'') demo_two_games)
       = Inr [(2, 2), (3, 1), (5, 2)]
   \<and> map_sum id emitted (process_action demo_traits (MESSAGE 5 ''bob'') demo_two_games)
       = Inr [Log Log_trace ''processing MESSAGE action'',
              Log Log_debug ''recieved message from connection w/no id'',
              Log Log_debug ''assigning connection to id: {}'',
              Close 4 ''player connected again'',
              Log Log_debug ''terminating redundant connection for player {}'',
              Log Log_trace ''connect called for player {}'']
   \<and> map_sum id m_connection_ids
         (process_actions demo_traits [MESSAGE 5 ''bob'', UNSUBSCRIBE 2] demo_two_games)
       = Inr [(3, 1), (5, 2)]
   \<and> map_sum id m_player_games
         (process_actions demo_traits [MESSAGE 5 ''bob'', UNSUBSCRIBE 2] demo_two_games)
       = Inr [(1, 2)]
   \<and> process_actions demo_traits [MESSAGE 5 ''bob'', UNSUBSCRIBE 2, UNSUBSCRIBE 5] demo_two_games
       = Inl Null_pointer"
  by code_simp

section \<open>Runs of the server on concrete inputs\<close>

text \<open>
  Claim C1 fails on the code.  The token \<open>forged\<close> decodes and carries a \<open>game_data\<close> claim
  the module accepts, and its verification throws.  \<open>setup_player\<close> logs the failure at
  debug level and goes on: \<open>login_json\<close> was assigned before \<open>verify\<close> threw, so the handle is
  bound to player 1 and \<open>player_connect\<close> makes the game.
\<close>

theorem setup_player_binds_unverified_token:
  "jwt_decode demo_traits ''forged'' = Inr (demo_token (demo_login 1) ''bad'')
   \<and> jwt_verify demo_traits (demo_token (demo_login 1) ''bad'') = Some Token_verification_exception
   \<and> map_sum id m_connection_ids (setup_player demo_traits 1 ''forged'' new_game_server)
       = Inr [(1, 1)]
   \<and> map_sum id m_player_games (setup_player demo_traits 1 ''forged'' new_game_server)
       = Inr [(1, 1), (2, 1)]
   \<and> map_sum id m_games (setup_player demo_traits 1 ''forged'' new_game_server) = Inr [1]
   \<and> map_sum id emitted (setup_player demo_traits 1 ''forged'' new_game_server)
       = Inr [Log Log_debug ''connection provided jwt that could not be verified'',
              Log Log_debug ''assigning connection to id: {}'',
              Log Log_trace ''connect called for player {}'']"
  by code_simp

text \<open>
  Claim C2 fails on the code.  \<open>game_update\<close> returns \<open>is_done ()\<close>, and \<open>update_games\<close>
  keeps the game when that is true and erases it when it is false.  In \<open>demo_lobby\<close> the
  game's clock stands at 1000: a tick of 1000 ms ends the game and the game stays in the
  set, with no handle closed; a tick of 500 ms leaves it running, and its handles are
  closed with reason "game ended" and it is erased.
\<close>

theorem update_games_erases_running_game:
  "map_sum id forget_log (process_actions demo_traits [MESSAGE 1 ''alice''] new_game_server)
     = Inr demo_lobby
   \<and> map_sum id m_games (update_games demo_traits 1000 demo_lobby) = Inr [1]
   \<and> map_sum id heap (update_games demo_traits 1000 demo_lobby)
       = Inr [(1, \<lparr>m_player_connections = [(1, 1)], m_player_status = [(1, True)],
                   m_game = (demo_game_of [])\<lparr>dg_clock := 0\<rparr>\<rparr>)]
   \<and> gm_is_done demo_module ((demo_game_of [])\<lparr>dg_clock := 0\<rparr>)
   \<and> map_sum id emitted (update_games demo_traits 1000 demo_lobby)
       = Inr [Log Log_trace ''update with timestep: {}'',
              Log Log_trace ''sending queued messages'', Send 1 ''state'']
   \<and> map_sum id m_games (update_games demo_traits 500 demo_lobby) = Inr []
   \<and> map_sum id heap (update_games demo_traits 500 demo_lobby)
       = Inr [(1, \<lparr>m_player_connections = [(1, 1), (2, 0)], m_player_status = [(1, True)],
                   m_game = (demo_game_of [])\<lparr>dg_clock := 500\<rparr>\<rparr>)]
   \<and> \<not> gm_is_done demo_module ((demo_game_of [])\<lparr>dg_clock := 500\<rparr>)
   \<and> map_sum id emitted (update_games demo_traits 500 demo_lobby)
       = Inr [Log Log_trace ''update with timestep: {}'',
              Log Log_trace ''sending queued messages'', Send 1 ''state'',
              Log Log_debug ''game ended'', Close 1 ''game ended'', Close 0 ''game ended'',
              Log Log_trace ''erasing game from list'']"
  by code_simp

end
